theory Spec2Isabelle
  imports Complex_Main "HOL-Library.Sublist"
begin

section \<open>Data model\<close>

text \<open>
  The script \<^verbatim>\<open>mysql-connector.py\<close> talks to two outside parties: a MySQL server
  (through \<^verbatim>\<open>mysql.connector\<close>) and a market data provider (through \<^verbatim>\<open>yfinance\<close>).
  Both are modelled as an environment that answers every outside call; the program
  state records the calls made so far, the log, and the two tables.

  Prices are Python floats in the source. They are modelled as exact rationals: the
  arithmetic of the source is kept (subtraction, true division with its
  \<^verbatim>\<open>ZeroDivisionError\<close>, multiplication, \<^verbatim>\<open>round(x, 2)\<close>), the binary rounding error
  of each operation is not.
\<close>

type_synonym date = nat
type_synonym time = nat

record datetime =
  dt_date :: date
  dt_time :: time

text \<open>One minute bar as the provider returns it (the columns the script reads).\<close>

record bar =
  Datetime :: datetime
  bar_Open :: rat
  bar_Close :: rat
  bar_Volume :: int

text \<open>One row of the frame \<^verbatim>\<open>get_stock_data\<close> returns: the bar plus the three added columns.\<close>

record row =
  ticker :: string
  date :: date
  time :: time
  Open :: rat
  Close :: rat
  Volume :: int

text \<open>One row of the table \<^verbatim>\<open>StockDetails\<close>: the tuple \<^verbatim>\<open>values\<close> of the insert.\<close>

record stock_detail =
  sd_ticker :: string
  sd_date :: date
  open_price :: rat
  close_price :: rat
  volume :: int
  percentage_change :: rat
  profit_loss :: string

text \<open>One row of the table \<^verbatim>\<open>ProfitStatistics\<close>, keyed by its unique ticker.\<close>

record profit_stat =
  total_days :: nat
  profit_days :: nat
  loss_days :: nat
  profit_probability :: rat
  last_calculated :: date

record tables =
  StockDetails :: "stock_detail list"
  ProfitStatistics :: "string \<Rightarrow> profit_stat option"

subsection \<open>Exceptions\<close>

datatype exn =
    DbError string
  | PyException string
  | ZeroDivisionError
  | UnboundLocalError string

text \<open>
  \<^verbatim>\<open>DbError\<close> is \<^verbatim>\<open>mysql.connector.Error\<close> with its text, \<^verbatim>\<open>PyException\<close> a plain
  \<^verbatim>\<open>Exception(msg)\<close>. \<^verbatim>\<open>UnboundLocalError\<close> is the subclass of \<^verbatim>\<open>NameError\<close> that
  Python raises when a local variable is read before any assignment.
\<close>

fun is_db_error :: "exn \<Rightarrow> bool" where
  "is_db_error (DbError m) = True"
| "is_db_error _ = False"

fun is_name_error :: "exn \<Rightarrow> bool" where
  "is_name_error (UnboundLocalError v) = True"
| "is_name_error _ = False"

fun str_exn :: "exn \<Rightarrow> string" where
  "str_exn (DbError m) = m"
| "str_exn (PyException m) = m"
| "str_exn ZeroDivisionError = ''float division by zero''"
| "str_exn (UnboundLocalError v) =
     ''cannot access local variable '' @ [CHR 0x27] @ v @ [CHR 0x27]
       @ '' where it is not associated with a value''"

subsection \<open>The environment and the program state\<close>

datatype reply = Ok | Err string

datatype fetch_reply = FetchError string | Frame "bar list"

datatype event =
    EvConnect reply
  | EvPing bool
  | EvSleep nat
  | EvCursor reply
  | EvInsert stock_detail reply
  | EvStats reply
  | EvCommit reply
  | EvRollback reply
  | EvCursorClose
  | EvFetch string fetch_reply

text \<open>
  Every outside call is answered by the environment at the index of the call: the
  number of calls made before it. \<open>db_reply\<close> answers \<^verbatim>\<open>mysql.connector.connect\<close>,
  \<^verbatim>\<open>cursor()\<close>, \<^verbatim>\<open>execute\<close>, \<^verbatim>\<open>commit\<close> and \<^verbatim>\<open>rollback\<close> (\<open>Err m\<close> is a raised
  \<^verbatim>\<open>mysql.connector.Error\<close>), \<open>ping_reply\<close> answers \<^verbatim>\<open>is_connected()\<close>, \<open>provider\<close>
  answers \<^verbatim>\<open>yf.Ticker(t).history(...)\<close> and \<open>curdate\<close> is the server's \<^verbatim>\<open>CURDATE()\<close>.
\<close>

record env =
  db_reply :: "nat \<Rightarrow> reply"
  ping_reply :: "nat \<Rightarrow> bool"
  provider :: "nat \<Rightarrow> string \<Rightarrow> fetch_reply"
  curdate :: "nat \<Rightarrow> date"

datatype level = INFO | ERROR

text \<open>
  \<open>durable\<close> is what the server has committed, \<open>session\<close> what the connection held by
  the \<^verbatim>\<open>DatabaseManager\<close> sees: the committed tables plus the writes of its open
  transaction. \<open>has_conn\<close> is false while \<^verbatim>\<open>self.connection\<close> is \<^verbatim>\<open>None\<close>.
\<close>

record world =
  durable :: tables
  session :: tables
  has_conn :: bool
  trace :: "event list"
  log :: "(level \<times> string) list"

definition now :: "world \<Rightarrow> nat" where
  "now w = length (trace w)"

definition emit :: "event \<Rightarrow> world \<Rightarrow> world" where
  "emit ev w = w\<lparr>trace := trace w @ [ev]\<rparr>"

definition logging_info :: "string \<Rightarrow> world \<Rightarrow> world" where
  "logging_info m w = w\<lparr>log := log w @ [(INFO, m)]\<rparr>"

definition logging_error :: "string \<Rightarrow> world \<Rightarrow> world" where
  "logging_error m w = w\<lparr>log := log w @ [(ERROR, m)]\<rparr>"

definition empty_tables :: tables where
  "empty_tables = \<lparr>StockDetails = [], ProfitStatistics = (\<lambda>t. None)\<rparr>"

definition init_world :: world where
  "init_world = \<lparr>durable = empty_tables, session = empty_tables, has_conn = False,
     trace = [], log = []\<rparr>"

subsection \<open>Printing a number, as an f-string does\<close>

definition digit_char :: "nat \<Rightarrow> char" where
  "digit_char d = char_of (48 + d)"

fun str_nat :: "nat \<Rightarrow> string" where
  "str_nat n = (if n < 10 then [digit_char n] else str_nat (n div 10) @ [digit_char (n mod 10)])"

declare str_nat.simps [simp del]

section \<open>DatabaseManager\<close>

subsection \<open>connect\<close>

definition max_retries :: nat where
  "max_retries = 3"

definition retry_delay :: nat where
  "retry_delay = 5"

text \<open>
  The calls to the server. A connection object returned by
  \<^verbatim>\<open>mysql.connector.connect\<close> replaces \<^verbatim>\<open>self.connection\<close>: it is a new session, which
  sees the committed tables and none of the writes an earlier session left open.
\<close>

definition mysql_connect :: "env \<Rightarrow> world \<Rightarrow> reply \<times> world" where
  "mysql_connect E w =
     (case db_reply E (now w) of
        Ok \<Rightarrow> (Ok, emit (EvConnect Ok) (w\<lparr>has_conn := True, session := durable w\<rparr>))
      | Err m \<Rightarrow> (Err m, emit (EvConnect (Err m)) w))"

definition is_connected :: "env \<Rightarrow> world \<Rightarrow> bool \<times> world" where
  "is_connected E w = (let b = ping_reply E (now w) in (b, emit (EvPing b) w))"

definition sleep :: "nat \<Rightarrow> world \<Rightarrow> world" where
  "sleep d w = emit (EvSleep d) w"

text \<open>
  The loop \<^verbatim>\<open>for attempt in range(max_retries)\<close>. An attempt that returns a connection
  whose \<^verbatim>\<open>is_connected()\<close> is false raises nothing: the loop goes on to the next attempt
  at once, and when the range is used up the method returns.
\<close>

fun connect_loop :: "env \<Rightarrow> nat list \<Rightarrow> world \<Rightarrow> (exn + unit) \<times> world" where
  "connect_loop E [] w = (Inr (), w)"
| "connect_loop E (attempt # rest) w =
     (case mysql_connect E w of
        (Ok, w1) \<Rightarrow>
          (case is_connected E w1 of
             (True, w2) \<Rightarrow> (Inr (), logging_info ''Successfully connected to MySQL database'' w2)
           | (False, w2) \<Rightarrow> connect_loop E rest w2)
      | (Err m, w1) \<Rightarrow>
          (let w2 = logging_error (''Attempt '' @ str_nat (attempt + 1) @ '' failed: '' @ m) w1
           in if attempt < max_retries - 1 then connect_loop E rest (sleep retry_delay w2)
              else (Inl (PyException ''Failed to connect to database after maximum retries''), w2)))"

definition connect :: "env \<Rightarrow> world \<Rightarrow> (exn + unit) \<times> world" where
  "connect E w = connect_loop E [0..<max_retries] w"

text \<open>\<^verbatim>\<open>DatabaseManager.__init__\<close>: no connection yet, then \<^verbatim>\<open>connect()\<close>.\<close>

definition new_DatabaseManager :: "env \<Rightarrow> world \<Rightarrow> (exn + unit) \<times> world" where
  "new_DatabaseManager E w = connect E (w\<lparr>has_conn := False\<rparr>)"

text \<open>The guard at the head of both writing methods.\<close>

definition ensure_connected :: "env \<Rightarrow> world \<Rightarrow> (exn + unit) \<times> world" where
  "ensure_connected E w =
     (if \<not> has_conn w then connect E w
      else (case is_connected E w of
              (True, w1) \<Rightarrow> (Inr (), w1)
            | (False, w1) \<Rightarrow> connect E w1))"

subsection \<open>save_stock_details\<close>

text \<open>
  \<^verbatim>\<open>round(x, 2)\<close> on exact values: to the nearest multiple of \<open>1/100\<close>, a tie to the
  even one.
\<close>

definition py_round :: "rat \<Rightarrow> nat \<Rightarrow> rat" where
  "py_round x ndigits =
     (let m = 10 ^ ndigits; y = x * m; f = \<lfloor>y\<rfloor>; d = y - of_int f
      in (if d < 1 / 2 then of_int f
          else if 1 / 2 < d then of_int (f + 1)
          else if even f then of_int f else of_int (f + 1)) / m)"

text \<open>
  The body of the \<^verbatim>\<open>for\<close> loop up to the tuple \<^verbatim>\<open>values\<close>. The division is Python's
  float division, which raises \<^verbatim>\<open>ZeroDivisionError\<close> on a zero divisor.
\<close>

definition row_values :: "row \<Rightarrow> exn + stock_detail" where
  "row_values r =
     (if Open r = 0 then Inl ZeroDivisionError
      else (let pc = ((Close r - Open r) / Open r) * 100;
                pl = (if Close r > Open r then ''profit'' else ''loss'')
            in Inr \<lparr>sd_ticker = ticker r, sd_date = date r, open_price = Open r,
                     close_price = Close r, volume = Volume r,
                     percentage_change = py_round pc 2, profit_loss = pl\<rparr>))"

definition cursor :: "env \<Rightarrow> world \<Rightarrow> reply \<times> world" where
  "cursor E w = (let a = db_reply E (now w) in (a, emit (EvCursor a) w))"

definition cursor_close :: "world \<Rightarrow> world" where
  "cursor_close w = emit EvCursorClose w"

definition execute_insert :: "env \<Rightarrow> stock_detail \<Rightarrow> world \<Rightarrow> reply \<times> world" where
  "execute_insert E v w =
     (case db_reply E (now w) of
        Ok \<Rightarrow> (Ok, emit (EvInsert v Ok)
                 (w\<lparr>session := (session w)\<lparr>StockDetails := StockDetails (session w) @ [v]\<rparr>\<rparr>))
      | Err m \<Rightarrow> (Err m, emit (EvInsert v (Err m)) w))"

definition commit :: "env \<Rightarrow> world \<Rightarrow> reply \<times> world" where
  "commit E w =
     (case db_reply E (now w) of
        Ok \<Rightarrow> (Ok, emit (EvCommit Ok) (w\<lparr>durable := session w\<rparr>))
      | Err m \<Rightarrow> (Err m, emit (EvCommit (Err m)) w))"

definition rollback :: "env \<Rightarrow> world \<Rightarrow> reply \<times> world" where
  "rollback E w =
     (case db_reply E (now w) of
        Ok \<Rightarrow> (Ok, emit (EvRollback Ok) (w\<lparr>session := durable w\<rparr>))
      | Err m \<Rightarrow> (Err m, emit (EvRollback (Err m)) w))"

fun insert_rows :: "env \<Rightarrow> row list \<Rightarrow> world \<Rightarrow> (exn + unit) \<times> world" where
  "insert_rows E [] w = (Inr (), w)"
| "insert_rows E (r # rs) w =
     (case row_values r of
        Inl e \<Rightarrow> (Inl e, w)
      | Inr v \<Rightarrow>
          (case execute_insert E v w of
             (Err m, w1) \<Rightarrow> (Inl (DbError m), w1)
           | (Ok, w1) \<Rightarrow> insert_rows E rs w1))"

text \<open>
  The \<^verbatim>\<open>try\<close> block after the cursor is made: the loop, the commit, and the success line
  of the log, which reads the loop variable \<^verbatim>\<open>row\<close>; no iteration has bound it when the
  frame has no rows.
\<close>

definition save_try :: "env \<Rightarrow> row list \<Rightarrow> world \<Rightarrow> (exn + unit) \<times> world" where
  "save_try E df w =
     (case insert_rows E df w of
        (Inl e, w1) \<Rightarrow> (Inl e, w1)
      | (Inr u, w1) \<Rightarrow>
          (case commit E w1 of
             (Err m, w2) \<Rightarrow> (Inl (DbError m), w2)
           | (Ok, w2) \<Rightarrow>
               (if df = [] then (Inl (UnboundLocalError ''row''), w2)
                else (Inr (), logging_info
                        (''Successfully saved stock details for '' @ ticker (last df)) w2))))"

text \<open>
  The clause \<^verbatim>\<open>except Error as e\<close>: only a \<^verbatim>\<open>mysql.connector.Error\<close> enters it. It logs,
  rolls back and raises the error again; an error of the rollback itself takes the place
  of the first one. Every other exception passes by untouched.
\<close>

definition except_Error :: "string \<Rightarrow> env \<Rightarrow> exn \<Rightarrow> world \<Rightarrow> exn \<times> world" where
  "except_Error what E e w =
     (case e of
        DbError m \<Rightarrow>
          (case rollback E (logging_error (what @ m) w) of
             (Ok, w1) \<Rightarrow> (DbError m, w1)
           | (Err m', w1) \<Rightarrow> (DbError m', w1))
      | _ \<Rightarrow> (e, w))"

text \<open>
  The whole method. The reconnect stands before the \<^verbatim>\<open>try\<close>, so its exception leaves at
  once. When \<^verbatim>\<open>cursor()\<close> itself raises, the handler runs and then the \<^verbatim>\<open>finally\<close> clause
  reads the unbound \<^verbatim>\<open>cursor\<close>: the caller sees that error.
\<close>

definition save_stock_details :: "env \<Rightarrow> row list \<Rightarrow> world \<Rightarrow> (exn + unit) \<times> world" where
  "save_stock_details E df w =
     (case ensure_connected E w of
        (Inl e, w0) \<Rightarrow> (Inl e, w0)
      | (Inr u, w0) \<Rightarrow>
          (case cursor E w0 of
             (Err m, w1) \<Rightarrow>
               (case except_Error ''Error saving stock details: '' E (DbError m) w1 of
                  (e, w2) \<Rightarrow> (Inl (UnboundLocalError ''cursor''), w2))
           | (Ok, w1) \<Rightarrow>
               (case save_try E df w1 of
                  (Inl e, w2) \<Rightarrow>
                    (case except_Error ''Error saving stock details: '' E e w2 of
                       (e', w3) \<Rightarrow> (Inl e', cursor_close w3))
                | (Inr u, w2) \<Rightarrow> (Inr (), cursor_close w2))))"

subsection \<open>update_profit_statistics\<close>

text \<open>
  The statement \<^verbatim>\<open>INSERT INTO ProfitStatistics ... SELECT ... GROUP BY ticker ON DUPLICATE
  KEY UPDATE ...\<close>, read over the tables the session sees. A quotient of two exact values
  has four more decimals than its dividend in MySQL (\<^verbatim>\<open>div_precision_increment\<close>), the
  last one rounded half up; \<^verbatim>\<open>COUNT(*)\<close> of a group is at least one, so the \<^verbatim>\<open>NULL\<close> of a
  division by zero does not occur. The key of \<^verbatim>\<open>ProfitStatistics\<close> is the ticker, which
  the table is a map of.
\<close>

definition sql_div :: "nat \<Rightarrow> nat \<Rightarrow> rat" where
  "sql_div a b = of_int \<lfloor>(of_nat a / of_nat b :: rat) * 10000 + 1 / 2\<rfloor> / 10000"

definition group_of :: "string \<Rightarrow> stock_detail list \<Rightarrow> stock_detail list" where
  "group_of t rows = filter (\<lambda>v. sd_ticker v = t) rows"

definition sum_case :: "string \<Rightarrow> stock_detail list \<Rightarrow> nat" where
  "sum_case what g = sum_list (map (\<lambda>v. if profit_loss v = what then 1 else 0) g)"

definition select_group :: "date \<Rightarrow> stock_detail list \<Rightarrow> string \<Rightarrow> profit_stat" where
  "select_group today rows t =
     (let g = group_of t rows
      in \<lparr>total_days = length g,
          profit_days = sum_case ''profit'' g,
          loss_days = sum_case ''loss'' g,
          profit_probability = sql_div (sum_case ''profit'' g) (length g) * 100,
          last_calculated = today\<rparr>)"

definition upsert_statistics :: "date \<Rightarrow> tables \<Rightarrow> tables" where
  "upsert_statistics today T =
     T\<lparr>ProfitStatistics :=
         (\<lambda>t. if t \<in> sd_ticker ` set (StockDetails T)
              then Some (select_group today (StockDetails T) t)
              else ProfitStatistics T t)\<rparr>"

definition execute_statistics :: "env \<Rightarrow> world \<Rightarrow> reply \<times> world" where
  "execute_statistics E w =
     (case db_reply E (now w) of
        Ok \<Rightarrow> (Ok, emit (EvStats Ok)
                 (w\<lparr>session := upsert_statistics (curdate E (now w)) (session w)\<rparr>))
      | Err m \<Rightarrow> (Err m, emit (EvStats (Err m)) w))"

definition update_try :: "env \<Rightarrow> world \<Rightarrow> (exn + unit) \<times> world" where
  "update_try E w =
     (case execute_statistics E w of
        (Err m, w1) \<Rightarrow> (Inl (DbError m), w1)
      | (Ok, w1) \<Rightarrow>
          (case commit E w1 of
             (Err m, w2) \<Rightarrow> (Inl (DbError m), w2)
           | (Ok, w2) \<Rightarrow>
               (Inr (), logging_info ''Successfully updated profit statistics'' w2)))"

definition update_profit_statistics :: "env \<Rightarrow> world \<Rightarrow> (exn + unit) \<times> world" where
  "update_profit_statistics E w =
     (case ensure_connected E w of
        (Inl e, w0) \<Rightarrow> (Inl e, w0)
      | (Inr u, w0) \<Rightarrow>
          (case cursor E w0 of
             (Err m, w1) \<Rightarrow>
               (case except_Error ''Error updating profit statistics: '' E (DbError m) w1 of
                  (e, w2) \<Rightarrow> (Inl (UnboundLocalError ''cursor''), w2))
           | (Ok, w1) \<Rightarrow>
               (case update_try E w1 of
                  (Inl e, w2) \<Rightarrow>
                    (case except_Error ''Error updating profit statistics: '' E e w2 of
                       (e', w3) \<Rightarrow> (Inl e', cursor_close w3))
                | (Inr u, w2) \<Rightarrow> (Inr (), cursor_close w2))))"

section \<open>StockAnalyzer\<close>

definition history :: "env \<Rightarrow> string \<Rightarrow> world \<Rightarrow> fetch_reply \<times> world" where
  "history E t w = (let a = provider E (now w) t in (a, emit (EvFetch t a) w))"

definition frame_row :: "string \<Rightarrow> bar \<Rightarrow> row" where
  "frame_row t b =
     \<lparr>ticker = t, date = dt_date (Datetime b), time = dt_time (Datetime b),
      Open = bar_Open b, Close = bar_Close b, Volume = bar_Volume b\<rparr>"

text \<open>
  \<^verbatim>\<open>get_stock_data\<close>: \<open>None\<close> for an empty frame, and \<open>None\<close> with a line in the log for
  anything raised inside the \<^verbatim>\<open>try\<close>, which \<^verbatim>\<open>except Exception\<close> catches.
\<close>

definition get_stock_data :: "env \<Rightarrow> string \<Rightarrow> world \<Rightarrow> row list option \<times> world" where
  "get_stock_data E t w =
     (case history E t w of
        (FetchError m, w1) \<Rightarrow>
          (None, logging_error (''Error fetching data for '' @ t @ '': '' @ m) w1)
      | (Frame bars, w1) \<Rightarrow>
          (if bars \<noteq> [] then (Some (map (frame_row t) bars), w1) else (None, w1)))"

text \<open>The \<^verbatim>\<open>for ticker in tickers\<close> loop of \<^verbatim>\<open>analyze_stocks\<close>.\<close>

fun analyze_loop :: "env \<Rightarrow> string list \<Rightarrow> world \<Rightarrow> (exn + unit) \<times> world" where
  "analyze_loop E [] w = (Inr (), w)"
| "analyze_loop E (t # ts) w =
     (case get_stock_data E t w of
        (None, w1) \<Rightarrow> analyze_loop E ts w1
      | (Some df, w1) \<Rightarrow>
          (case save_stock_details E df w1 of
             (Inl e, w2) \<Rightarrow> (Inl e, w2)
           | (Inr u, w2) \<Rightarrow> analyze_loop E ts w2))"

text \<open>The \<^verbatim>\<open>try\<close> block of \<^verbatim>\<open>analyze_stocks\<close>: the loop, then the statistics.\<close>

definition analyze_try :: "env \<Rightarrow> string list \<Rightarrow> world \<Rightarrow> (exn + unit) \<times> world" where
  "analyze_try E tickers w =
     (case analyze_loop E tickers w of
        (Inl e, w1) \<Rightarrow> (Inl e, w1)
      | (Inr u, w1) \<Rightarrow> update_profit_statistics E w1)"

definition analyze_stocks :: "env \<Rightarrow> string list \<Rightarrow> world \<Rightarrow> (bool \<times> string) \<times> world" where
  "analyze_stocks E tickers w =
     (case analyze_try E tickers w of
        (Inr u, w1) \<Rightarrow> ((True, ''Analysis completed successfully''), w1)
      | (Inl e, w1) \<Rightarrow>
          (let error_msg = ''Analysis failed: '' @ str_exn e
           in ((False, error_msg), logging_error error_msg w1)))"

section \<open>Observations\<close>

text \<open>What a call added to the trace.\<close>

definition new_events :: "world \<Rightarrow> world \<Rightarrow> event list" where
  "new_events w w' = drop (now w) (trace w')"

text \<open>The rows that reached the table: the inserts the server accepted.\<close>

fun inserted :: "event list \<Rightarrow> stock_detail list" where
  "inserted [] = []"
| "inserted (EvInsert v Ok # es) = v # inserted es"
| "inserted (e # es) = inserted es"

text \<open>A write that the server refused, with the text of its error.\<close>

fun write_failed :: "event \<Rightarrow> string option" where
  "write_failed (EvInsert v (Err m)) = Some m"
| "write_failed (EvCommit (Err m)) = Some m"
| "write_failed (EvStats (Err m)) = Some m"
| "write_failed _ = None"

text \<open>The calls of \<^verbatim>\<open>connect\<close>, and those that come before the first write of a method.\<close>

fun conn_event :: "event \<Rightarrow> bool" where
  "conn_event (EvConnect a) = True"
| "conn_event (EvPing b) = True"
| "conn_event (EvSleep d) = True"
| "conn_event _ = False"


definition ext :: "(event \<Rightarrow> bool) \<Rightarrow> world \<Rightarrow> world \<Rightarrow> bool" where
  "ext P w w' = (\<exists>evs. trace w' = trace w @ evs \<and> list_all P evs)"

text \<open>
  What (re)connecting may do: nothing is committed, and the session either stays or is
  replaced by a new one, which sees the committed tables only.
\<close>

definition conn_only :: "world \<Rightarrow> world \<Rightarrow> bool" where
  "conn_only w w' =
     (durable w' = durable w \<and> (session w' = session w \<or> session w' = durable w)
      \<and> ext conn_event w w')"

definition append_rows :: "stock_detail list \<Rightarrow> tables \<Rightarrow> tables" where
  "append_rows vs T = T\<lparr>StockDetails := StockDetails T @ vs\<rparr>"

definition tickers_of :: "tables \<Rightarrow> string set" where
  "tickers_of T = sd_ticker ` set (StockDetails T)"

definition computed_fields :: "profit_stat \<Rightarrow> nat \<times> nat \<times> nat \<times> rat" where
  "computed_fields st = (total_days st, profit_days st, loss_days st, profit_probability st)"

text \<open>
  The invariant of the table \<^verbatim>\<open>StockDetails\<close>: the column \<^verbatim>\<open>profit_loss\<close> holds one of
  the two words the script writes, in the committed table and in the session.
\<close>

definition rows_ok :: "tables \<Rightarrow> bool" where
  "rows_ok T =
     (\<forall>v \<in> set (StockDetails T). profit_loss v = ''profit'' \<or> profit_loss v = ''loss'')"

definition tables_ok :: "world \<Rightarrow> bool" where
  "tables_ok w = (rows_ok (durable w) \<and> rows_ok (session w))"

text \<open>
  The states the program can be in: it starts on empty tables, and every step is one of
  its own methods, called with any argument and answered by the environment in any way.
\<close>

inductive reachable :: "env \<Rightarrow> world \<Rightarrow> bool" for E :: env where
  start: "reachable E init_world"
| manager: "reachable E w \<Longrightarrow> reachable E (snd (new_DatabaseManager E w))"
| save: "reachable E w \<Longrightarrow> reachable E (snd (save_stock_details E df w))"
| update: "reachable E w \<Longrightarrow> reachable E (snd (update_profit_statistics E w))"
| fetch: "reachable E w \<Longrightarrow> reachable E (snd (get_stock_data E t w))"
| analyze: "reachable E w \<Longrightarrow> reachable E (snd (analyze_stocks E ts w))"

text \<open>A fetch without data, and the line it leaves in the log.\<close>

fun no_data :: "fetch_reply \<Rightarrow> bool" where
  "no_data (FetchError m) = True"
| "no_data (Frame bars) = (bars = [])"

fun fetch_log :: "string \<Rightarrow> fetch_reply \<Rightarrow> (level \<times> string) list" where
  "fetch_log t (FetchError m) = [(ERROR, ''Error fetching data for '' @ t @ '': '' @ m)]"
| "fetch_log t (Frame bars) = []"

section \<open>Example runs\<close>

text \<open>
  Environments: one where every call succeeds and the provider has no data; one whose
  connections are never alive; one that refuses the fourth or the fifth call with a
  database error; one whose provider returns a bar with a zero open price; one whose
  provider raises.
\<close>

definition E_ok :: env where
  "E_ok = \<lparr>db_reply = (\<lambda>n. Ok), ping_reply = (\<lambda>n. True),
     provider = (\<lambda>n t. Frame []), curdate = (\<lambda>n. 20000)\<rparr>"

definition E_dead :: env where
  "E_dead = E_ok\<lparr>ping_reply := (\<lambda>n. False)\<rparr>"

definition E_deadlock :: env where
  "E_deadlock = E_ok\<lparr>db_reply := (\<lambda>n. if n = 5 then Err ''Deadlock found'' else Ok)\<rparr>"

definition E_timeout :: env where
  "E_timeout =
     E_ok\<lparr>db_reply := (\<lambda>n. if n = 4 then Err ''Lock wait timeout exceeded'' else Ok)\<rparr>"

definition bar_zero :: bar where
  "bar_zero = \<lparr>Datetime = \<lparr>dt_date = 20000, dt_time = 34200\<rparr>, bar_Open = 0,
     bar_Close = 110, bar_Volume = 0\<rparr>"

definition E_zero :: env where
  "E_zero = E_ok\<lparr>provider := (\<lambda>n t. Frame [bar_zero])\<rparr>"

definition E_down :: env where
  "E_down =
     E_ok\<lparr>provider := (\<lambda>n t. FetchError ''No data found, symbol may be delisted'')\<rparr>"

text \<open>The state after \<^verbatim>\<open>DatabaseManager()\<close> on empty tables, three rows and two tuples.\<close>

definition W_conn :: world where
  "W_conn = snd (new_DatabaseManager E_ok init_world)"

definition row_up :: row where
  "row_up = \<lparr>ticker = ''AAPL'', date = 20000, time = 34200, Open = 100, Close = 110,
     Volume = 5000\<rparr>"

definition row_flat :: row where
  "row_flat = \<lparr>ticker = ''AAPL'', date = 20000, time = 34260, Open = 110, Close = 110,
     Volume = 700\<rparr>"

definition row_zero :: row where
  "row_zero = \<lparr>ticker = ''AAPL'', date = 20000, time = 34320, Open = 0, Close = 110,
     Volume = 0\<rparr>"

definition detail_up :: stock_detail where
  "detail_up = \<lparr>sd_ticker = ''AAPL'', sd_date = 20000, open_price = 100, close_price = 110,
     volume = 5000, percentage_change = 10, profit_loss = ''profit''\<rparr>"

definition detail_flat :: stock_detail where
  "detail_flat = \<lparr>sd_ticker = ''AAPL'', sd_date = 20000, open_price = 110, close_price = 110,
     volume = 700, percentage_change = 0, profit_loss = ''loss''\<rparr>"

definition W_saved :: world where
  "W_saved = snd (save_stock_details E_ok [row_up, row_flat] W_conn)"

section \<open>Properties\<close>

subsection \<open>Bookkeeping\<close>

lemma emit_fields [simp]:
  "trace (emit ev w) = trace w @ [ev]" "durable (emit ev w) = durable w"
  "session (emit ev w) = session w" "has_conn (emit ev w) = has_conn w"
  "log (emit ev w) = log w" "now (emit ev w) = Suc (now w)"
  by (simp_all add: emit_def now_def)

lemma logging_fields [simp]:
  "trace (logging_info m w) = trace w" "durable (logging_info m w) = durable w"
  "session (logging_info m w) = session w" "has_conn (logging_info m w) = has_conn w"
  "log (logging_info m w) = log w @ [(INFO, m)]" "now (logging_info m w) = now w"
  "trace (logging_error m w) = trace w" "durable (logging_error m w) = durable w"
  "session (logging_error m w) = session w" "has_conn (logging_error m w) = has_conn w"
  "log (logging_error m w) = log w @ [(ERROR, m)]" "now (logging_error m w) = now w"
  by (simp_all add: logging_info_def logging_error_def now_def)

lemma ext_refl [simp]: "ext P w w"
  by (simp add: ext_def)

lemma ext_trans: "ext P w w1 \<Longrightarrow> ext P w1 w2 \<Longrightarrow> ext P w w2"
  by (auto simp: ext_def)

subsection \<open>Connecting\<close>

lemma conn_only_refl [simp]: "conn_only w w"
  by (simp add: conn_only_def)

lemma conn_only_trans: "conn_only w w1 \<Longrightarrow> conn_only w1 w2 \<Longrightarrow> conn_only w w2"
  by (auto simp: conn_only_def intro: ext_trans)

lemma conn_only_mysql_connect: "mysql_connect E w = (a, w') \<Longrightarrow> conn_only w w'"
  by (auto simp: mysql_connect_def conn_only_def ext_def split: reply.splits)

lemma conn_only_is_connected: "is_connected E w = (b, w') \<Longrightarrow> conn_only w w'"
  by (auto simp: is_connected_def conn_only_def ext_def Let_def)

lemma conn_only_log: "conn_only w w1 \<Longrightarrow> conn_only w (logging_error m w1)"
  "conn_only w w1 \<Longrightarrow> conn_only w (logging_info m w1)"
  by (auto simp: conn_only_def ext_def)

lemma conn_only_sleep: "conn_only w w1 \<Longrightarrow> conn_only w (sleep d w1)"
  by (auto simp: conn_only_def ext_def sleep_def)

lemma conn_only_connect_loop: "connect_loop E as w = (r, w') \<Longrightarrow> conn_only w w'"
proof (induction as arbitrary: w)
  case Nil
  then show ?case by simp
next
  case (Cons a as)
  obtain r1 w1 where c: "mysql_connect E w = (r1, w1)" by force
  obtain b w2 where p: "is_connected E w1 = (b, w2)" by force
  note c1 = conn_only_mysql_connect [OF c]
  note c2 = conn_only_trans [OF c1 conn_only_is_connected [OF p]]
  show ?case
  proof (cases r1)
    case Ok
    with Cons.prems c p c2 Cons.IH [of w2] show ?thesis
      by (cases b) (auto intro: conn_only_log conn_only_trans)
  next
    case (Err m)
    with Cons.prems c c1 Cons.IH show ?thesis
      by (auto simp: Let_def split: if_splits
          intro: conn_only_log conn_only_trans [OF conn_only_sleep [OF conn_only_log(1) [OF c1]]])
  qed
qed

lemma conn_only_ensure_connected: "ensure_connected E w = (r, w') \<Longrightarrow> conn_only w w'"
  by (auto simp: ensure_connected_def connect_def split: if_splits prod.splits bool.splits
      dest!: conn_only_connect_loop conn_only_is_connected intro: conn_only_trans)

subsection \<open>The outcomes of save_stock_details\<close>

text \<open>What the loop of inserts leaves behind.\<close>

lemma row_values_Inl: "row_values r = Inl e \<Longrightarrow> e = ZeroDivisionError \<and> Open r = 0"
  by (auto simp: row_values_def Let_def split: if_splits)

lemma insert_rows_Inr:
  "insert_rows E df w = (Inr u, w') \<Longrightarrow>
     \<exists>vs. map Inr vs = map row_values df
        \<and> trace w' = trace w @ map (\<lambda>v. EvInsert v Ok) vs
        \<and> session w' = (session w)\<lparr>StockDetails := StockDetails (session w) @ vs\<rparr>
        \<and> durable w' = durable w \<and> log w' = log w \<and> has_conn w' = has_conn w"
proof (induction df arbitrary: w)
  case Nil
  then show ?case by simp
next
  case (Cons r df)
  from Cons.prems obtain v where v: "row_values r = Inr v"
    by (cases "row_values r") auto
  from Cons.prems v obtain w1 where x: "execute_insert E v w = (Ok, w1)"
    and rest: "insert_rows E df w1 = (Inr u, w')"
    by (auto split: prod.splits reply.splits)
  from x have w1: "w1 = emit (EvInsert v Ok)
      (w\<lparr>session := (session w)\<lparr>StockDetails := StockDetails (session w) @ [v]\<rparr>\<rparr>)"
    by (auto simp: execute_insert_def split: reply.splits)
  from Cons.IH [OF rest] obtain vs where
    "map Inr vs = map row_values df" "trace w' = trace w1 @ map (\<lambda>v. EvInsert v Ok) vs"
    "session w' = (session w1)\<lparr>StockDetails := StockDetails (session w1) @ vs\<rparr>"
    "durable w' = durable w1" "log w' = log w1" "has_conn w' = has_conn w1"
    by blast
  then show ?case using v w1
    by (intro exI [of _ "v # vs"]) simp
qed

lemma insert_rows_Inl:
  "insert_rows E df w = (Inl e, w') \<Longrightarrow>
     durable w' = durable w \<and> log w' = log w \<and> has_conn w' = has_conn w \<and>
     (\<exists>vs. session w' = (session w)\<lparr>StockDetails := StockDetails (session w) @ vs\<rparr> \<and>
        map Inr vs = map row_values (take (length vs) df) \<and>
        ((e = ZeroDivisionError \<and> trace w' = trace w @ map (\<lambda>v. EvInsert v Ok) vs) \<or>
         (\<exists>v m. e = DbError m \<and>
            trace w' = trace w @ map (\<lambda>v. EvInsert v Ok) vs @ [EvInsert v (Err m)])))"
proof (induction df arbitrary: w)
  case Nil
  then show ?case by simp
next
  case (Cons r df)
  show ?case
  proof (cases "row_values r")
    case (Inl e')
    with Cons.prems row_values_Inl [OF Inl] show ?thesis
      by (intro conjI exI [of _ "[]"]) auto
  next
    case (Inr v)
    obtain a w1 where x: "execute_insert E v w = (a, w1)" by force
    show ?thesis
    proof (cases a)
      case Ok
      with x have w1: "w1 = emit (EvInsert v Ok)
          (w\<lparr>session := (session w)\<lparr>StockDetails := StockDetails (session w) @ [v]\<rparr>\<rparr>)"
        by (auto simp: execute_insert_def split: reply.splits)
      from Cons.prems Inr x Ok have rest: "insert_rows E df w1 = (Inl e, w')" by simp
      from Cons.IH [OF rest] obtain vs where
        f: "durable w' = durable w1" "log w' = log w1" "has_conn w' = has_conn w1"
        "session w' = (session w1)\<lparr>StockDetails := StockDetails (session w1) @ vs\<rparr>"
        "map Inr vs = map row_values (take (length vs) df)"
        and t: "(e = ZeroDivisionError \<and> trace w' = trace w1 @ map (\<lambda>v. EvInsert v Ok) vs) \<or>
         (\<exists>v m. e = DbError m \<and>
            trace w' = trace w1 @ map (\<lambda>v. EvInsert v Ok) vs @ [EvInsert v (Err m)])"
        by blast
      show ?thesis using f t w1 Inr
        by (intro conjI exI [of _ "v # vs"]) auto
    next
      case (Err m)
      with x have w1: "w1 = emit (EvInsert v (Err m)) w"
        by (auto simp: execute_insert_def split: reply.splits)
      from Cons.prems Inr x Err have "e = DbError m" "w' = w1" by simp_all
      then show ?thesis using w1
        by (intro conjI exI [of _ "[]"]) auto
    qed
  qed
qed


lemma all_rows_take:
  assumes "map Inr vs = map row_values df"
  shows "map Inr vs = map row_values (take (length vs) df)"
proof -
  from assms have "length vs = length df" by (rule map_eq_imp_length_eq)
  with assms show ?thesis by simp
qed

lemma except_Error_db:
  assumes "except_Error what E (DbError m) w = (e', w')"
  shows "\<exists>a. trace w' = trace w @ [EvRollback a] \<and> durable w' = durable w
           \<and> log w' = log w @ [(ERROR, what @ m)]
           \<and> (a = Ok \<longrightarrow> e' = DbError m \<and> session w' = durable w)
           \<and> (\<forall>m'. a = Err m' \<longrightarrow> e' = DbError m' \<and> session w' = session w)"
  using assms by (auto simp: except_Error_def rollback_def split: reply.splits)

lemma except_Error_other: "\<not> is_db_error e \<Longrightarrow> except_Error what E e w = (e, w)"
  by (cases e) (simp_all add: except_Error_def)

lemma commit_cases:
  assumes "commit E w = (a, w')"
  shows "trace w' = trace w @ [EvCommit a] \<and> session w' = session w \<and> log w' = log w
           \<and> durable w' = (if a = Ok then session w else durable w)"
  using assms by (auto simp: commit_def split: reply.splits)

lemma save_try_shape:
  assumes "save_try E df w = (r, w')"
  obtains
    (zero) vs where "r = Inl ZeroDivisionError"
      "map Inr vs = map row_values (take (length vs) df)"
      "trace w' = trace w @ map (\<lambda>v. EvInsert v Ok) vs"
      "session w' = append_rows vs (session w)" "durable w' = durable w"
  | (failed) vs ev m where "r = Inl (DbError m)" "write_failed ev = Some m"
      "map Inr vs = map row_values (take (length vs) df)"
      "trace w' = trace w @ map (\<lambda>v. EvInsert v Ok) vs @ [ev]"
      "session w' = append_rows vs (session w)" "durable w' = durable w"
  | (empty) "df = []" "r = Inl (UnboundLocalError ''row'')"
      "trace w' = trace w @ [EvCommit Ok]"
      "session w' = session w" "durable w' = session w" "log w' = log w"
  | (ok) vs where "df \<noteq> []" "r = Inr ()" "map Inr vs = map row_values df"
      "trace w' = trace w @ map (\<lambda>v. EvInsert v Ok) vs @ [EvCommit Ok]"
      "session w' = append_rows vs (session w)" "durable w' = append_rows vs (session w)"
      "log w' = log w @ [(INFO, ''Successfully saved stock details for '' @ ticker (last df))]"
proof -
  obtain r1 w1 where i: "insert_rows E df w = (r1, w1)" by force
  show thesis
  proof (cases r1)
    case (Inl e)
    from insert_rows_Inl [OF i [unfolded Inl]] obtain vs where
      f: "durable w1 = durable w" "session w1 = append_rows vs (session w)"
      "map Inr vs = map row_values (take (length vs) df)"
      and t: "(e = ZeroDivisionError \<and> trace w1 = trace w @ map (\<lambda>v. EvInsert v Ok) vs) \<or>
         (\<exists>v m. e = DbError m \<and>
            trace w1 = trace w @ map (\<lambda>v. EvInsert v Ok) vs @ [EvInsert v (Err m)])"
      unfolding append_rows_def by blast
    from assms i Inl have rw: "r = Inl e" "w' = w1" by (simp_all add: save_try_def)
    from t show thesis
    proof
      assume "e = ZeroDivisionError \<and> trace w1 = trace w @ map (\<lambda>v. EvInsert v Ok) vs"
      then show thesis using rw f by (intro zero [of vs]) simp_all
    next
      assume "\<exists>v m. e = DbError m \<and>
            trace w1 = trace w @ map (\<lambda>v. EvInsert v Ok) vs @ [EvInsert v (Err m)]"
      then obtain v m where "e = DbError m"
        "trace w1 = trace w @ map (\<lambda>v. EvInsert v Ok) vs @ [EvInsert v (Err m)]" by blast
      then show thesis using rw f by (intro failed [of m "EvInsert v (Err m)" vs]) simp_all
    qed
  next
    case (Inr u)
    from insert_rows_Inr [OF i [unfolded Inr]] obtain vs where
      f: "map Inr vs = map row_values df" "trace w1 = trace w @ map (\<lambda>v. EvInsert v Ok) vs"
      "session w1 = append_rows vs (session w)" "durable w1 = durable w" "log w1 = log w"
      unfolding append_rows_def by blast
    obtain a w2 where c: "commit E w1 = (a, w2)" by force
    note cc = commit_cases [OF c]
    show thesis
    proof (cases a)
      case (Err m)
      with assms i Inr c have rw: "r = Inl (DbError m)" "w' = w2" by (simp_all add: save_try_def)
      show thesis using rw f cc Err all_rows_take [OF f(1)]
        by (intro failed [of m "EvCommit (Err m)" vs]) simp_all
    next
      case Ok
      show thesis
      proof (cases "df = []")
        case True
        with assms i Inr c Ok have rw: "r = Inl (UnboundLocalError ''row'')" "w' = w2"
          by (simp_all add: save_try_def)
        from True f have "vs = []" by simp
        then show thesis using rw f cc Ok True
          by (intro empty) (simp_all add: append_rows_def)
      next
        case False
        with assms i Inr c Ok have rw: "r = Inr ()"
          "w' = logging_info (''Successfully saved stock details for '' @ ticker (last df)) w2"
          by (simp_all add: save_try_def)
        show thesis using rw f cc Ok False
          by (intro ok [of vs]) simp_all
      qed
    qed
  qed
qed


lemma connect_loop_Inl:
  "connect_loop E as w = (Inl e, w') \<Longrightarrow>
     e = PyException ''Failed to connect to database after maximum retries''"
proof (induction as arbitrary: w)
  case Nil
  then show ?case by simp
next
  case (Cons a as)
  then show ?case
    by (auto simp: Let_def split: prod.splits reply.splits bool.splits if_splits)
qed

lemma ensure_connected_Inl:
  "ensure_connected E w = (Inl e, w') \<Longrightarrow>
     e = PyException ''Failed to connect to database after maximum retries''"
  by (auto simp: ensure_connected_def connect_def split: if_splits prod.splits bool.splits
      dest: connect_loop_Inl)

lemma cursor_cases:
  assumes "cursor E w = (a, w')"
  shows "w' = emit (EvCursor a) w \<and> a = db_reply E (now w)"
  using assms by (auto simp: cursor_def Let_def)

lemma save_stock_details_shape:
  assumes "save_stock_details E df w = (r, w')"
  obtains
    (s_noconn) "r = Inl (PyException ''Failed to connect to database after maximum retries'')"
      "conn_only w w'"
  | (s_nocursor) w0 m a where "r = Inl (UnboundLocalError ''cursor'')" "conn_only w w0"
      "trace w' = trace w0 @ [EvCursor (Err m), EvRollback a]" "durable w' = durable w"
      "session w' = session w0 \<or> session w' = durable w"
  | (s_zero) w0 vs where "r = Inl ZeroDivisionError" "conn_only w w0"
      "map Inr vs = map row_values (take (length vs) df)"
      "trace w' = trace w0 @ EvCursor Ok # map (\<lambda>v. EvInsert v Ok) vs @ [EvCursorClose]"
      "session w' = append_rows vs (session w0)" "durable w' = durable w"
  | (s_failed) w0 vs ev m a where "write_failed ev = Some m" "conn_only w w0"
      "map Inr vs = map row_values (take (length vs) df)"
      "trace w' = trace w0 @ EvCursor Ok # map (\<lambda>v. EvInsert v Ok) vs
                   @ [ev, EvRollback a, EvCursorClose]"
      "durable w' = durable w"
      "a = Ok \<Longrightarrow> r = Inl (DbError m) \<and> session w' = durable w"
      "\<And>m'. a = Err m' \<Longrightarrow> r = Inl (DbError m') \<and> session w' = append_rows vs (session w0)"
  | (s_empty) w0 where "df = []" "r = Inl (UnboundLocalError ''row'')" "conn_only w w0"
      "trace w' = trace w0 @ [EvCursor Ok, EvCommit Ok, EvCursorClose]"
      "session w' = session w0" "durable w' = session w0" "log w' = log w0"
  | (s_ok) w0 vs where "df \<noteq> []" "r = Inr ()" "conn_only w w0"
      "map Inr vs = map row_values df"
      "trace w' = trace w0 @ EvCursor Ok # map (\<lambda>v. EvInsert v Ok) vs
                   @ [EvCommit Ok, EvCursorClose]"
      "session w' = append_rows vs (session w0)" "durable w' = append_rows vs (session w0)"
proof -
  obtain r0 w0 where ec: "ensure_connected E w = (r0, w0)" by force
  note co = conn_only_ensure_connected [OF ec]
  then have d0: "durable w0 = durable w" by (simp add: conn_only_def)
  show thesis
  proof (cases r0)
    case (Inl e)
    with assms ec have rw: "r = Inl e" "w' = w0" by (simp_all add: save_stock_details_def)
    from ensure_connected_Inl [OF ec [unfolded Inl]] rw co show thesis
      by (intro s_noconn) simp_all
  next
    case (Inr u)
    obtain a1 w1 where cu: "cursor E w0 = (a1, w1)" by force
    note c1 = cursor_cases [OF cu]
    show thesis
    proof (cases a1)
      case (Err m)
      obtain e2 w2 where ex: "except_Error ''Error saving stock details: '' E (DbError m) w1 = (e2, w2)"
        by force
      from assms ec Inr cu Err ex have rw: "r = Inl (UnboundLocalError ''cursor'')" "w' = w2"
        by (simp_all add: save_stock_details_def)
      from except_Error_db [OF ex] obtain a where
        "trace w2 = trace w1 @ [EvRollback a]" "durable w2 = durable w1"
        "a = Ok \<longrightarrow> session w2 = durable w1" "\<forall>m'. a = Err m' \<longrightarrow> session w2 = session w1"
        by blast
      then show thesis using rw c1 Err co d0
        by (intro s_nocursor [of w0 m a]) (cases a; simp)+
    next
      case Ok
      obtain r2 w2 where st: "save_try E df w1 = (r2, w2)" by force
      from st show thesis
      proof (cases rule: save_try_shape)
        case (zero vs)
        with assms ec Inr cu Ok st have rw: "r = Inl ZeroDivisionError" "w' = cursor_close w2"
          by (simp_all add: save_stock_details_def except_Error_other)
        show thesis using rw zero c1 co d0 Ok
          by (intro s_zero [of w0 vs]) (simp_all add: cursor_close_def)
      next
        case (failed vs ev m)
        obtain e3 w3 where ex: "except_Error ''Error saving stock details: '' E (DbError m) w2 = (e3, w3)"
          by force
        from assms ec Inr cu Ok st failed ex have rw: "r = Inl e3" "w' = cursor_close w3"
          by (simp_all add: save_stock_details_def)
        from except_Error_db [OF ex] obtain a where
          "trace w3 = trace w2 @ [EvRollback a]" "durable w3 = durable w2"
          "a = Ok \<longrightarrow> e3 = DbError m \<and> session w3 = durable w2"
          "\<forall>m'. a = Err m' \<longrightarrow> e3 = DbError m' \<and> session w3 = session w2"
          by blast
        then show thesis using rw failed c1 co d0 Ok
          by (intro s_failed [of ev m w0 vs a]) (simp_all add: cursor_close_def)
      next
        case empty
        with assms ec Inr cu Ok st have rw: "r = Inl (UnboundLocalError ''row'')" "w' = cursor_close w2"
          by (simp_all add: save_stock_details_def except_Error_other)
        show thesis using rw empty c1 co Ok
          by (intro s_empty [of w0]) (simp_all add: cursor_close_def)
      next
        case (ok vs)
        with assms ec Inr cu Ok st have rw: "r = Inr ()" "w' = cursor_close w2"
          by (simp_all add: save_stock_details_def)
        show thesis using rw ok c1 co Ok
          by (intro s_ok [of w0 vs]) (simp_all add: cursor_close_def)
      qed
    qed
  qed
qed


subsection \<open>The rows a call inserts\<close>

lemma inserted_append [simp]: "inserted (xs @ ys) = inserted xs @ inserted ys"
  by (induction xs rule: inserted.induct) simp_all

lemma inserted_map_Ok [simp]: "inserted (map (\<lambda>v. EvInsert v Ok) vs) = vs"
  by (induction vs) simp_all

lemma inserted_conn: "list_all conn_event evs \<Longrightarrow> inserted evs = []"
  by (induction evs rule: inserted.induct) simp_all

lemma inserted_write_failed: "write_failed ev = Some m \<Longrightarrow> inserted (ev # evs) = inserted evs"
  by (cases ev rule: write_failed.cases) simp_all

lemma conn_only_new_events:
  assumes "conn_only w w0" "trace w' = trace w0 @ evs"
  shows "\<exists>cevs. list_all conn_event cevs \<and> new_events w w' = cevs @ evs"
  using assms by (auto simp: conn_only_def ext_def new_events_def now_def)

lemma prefix_rows:
  assumes "map Inr vs = map row_values (take n df)" "v \<in> set vs"
  shows "\<exists>r \<in> set df. row_values r = Inr v"
proof -
  from assms have "Inr v \<in> set (map row_values (take n df))"
    by (metis image_eqI set_map)
  then show ?thesis by (auto dest: in_set_takeD)
qed

lemma save_inserted_from_rows:
  assumes "v \<in> set (inserted (new_events w (snd (save_stock_details E df w))))"
  shows "\<exists>r \<in> set df. row_values r = Inr v"
proof -
  obtain r w' where s: "save_stock_details E df w = (r, w')" by force
  from s show ?thesis
  proof (cases rule: save_stock_details_shape)
    case s_noconn
    from conn_only_new_events [OF s_noconn(2), of w' "[]"] assms s show ?thesis
      by (auto simp: inserted_conn)
  next
    case (s_nocursor w0 m a)
    from conn_only_new_events [OF s_nocursor(2,3)] assms s show ?thesis
      by (auto simp: inserted_conn)
  next
    case (s_zero w0 vs)
    from conn_only_new_events [OF s_zero(2,4)] assms s have "v \<in> set vs"
      by (auto simp: inserted_conn)
    with s_zero(3) show ?thesis by (rule prefix_rows)
  next
    case (s_failed w0 vs ev m a)
    from conn_only_new_events [OF s_failed(2,4)] assms s s_failed(1) have "v \<in> set vs"
      by (auto simp: inserted_conn inserted_write_failed)
    with s_failed(3) show ?thesis by (rule prefix_rows)
  next
    case (s_empty w0)
    from conn_only_new_events [OF s_empty(3,4)] assms s show ?thesis
      by (auto simp: inserted_conn)
  next
    case (s_ok w0 vs)
    from conn_only_new_events [OF s_ok(3,5)] assms s have "v \<in> set vs"
      by (auto simp: inserted_conn)
    with all_rows_take [OF s_ok(4)] show ?thesis by (rule prefix_rows)
  qed
qed

lemma row_values_Inr:
  assumes "row_values r = Inr v"
  shows "Open r \<noteq> 0" "sd_ticker v = ticker r" "sd_date v = date r" "open_price v = Open r"
    "close_price v = Close r" "volume v = Volume r"
    "percentage_change v = py_round ((Close r - Open r) / Open r * 100) 2"
    "profit_loss v = (if Close r > Open r then ''profit'' else ''loss'')"
  using assms by (auto simp: row_values_def Let_def split: if_splits)

text \<open>
  Claim C1. Every row that \<^verbatim>\<open>save_stock_details\<close> inserts carries \<open>profit\<close> exactly
  when its close price is above its open price and \<open>loss\<close> otherwise; a row whose
  close equals its open is a \<open>loss\<close>.
\<close>

theorem save_stock_details_profit_loss:
  "\<forall>v \<in> set (inserted (new_events w (snd (save_stock_details E df w)))).
     (profit_loss v = ''profit'' \<longleftrightarrow> close_price v > open_price v) \<and>
     (profit_loss v = ''loss'' \<longleftrightarrow> \<not> close_price v > open_price v) \<and>
     (close_price v = open_price v \<longrightarrow> profit_loss v = ''loss'')"
proof
  fix v
  assume "v \<in> set (inserted (new_events w (snd (save_stock_details E df w))))"
  then obtain r where "row_values r = Inr v"
    using save_inserted_from_rows by blast
  from row_values_Inr(4,5,8) [OF this]
  show "(profit_loss v = ''profit'' \<longleftrightarrow> close_price v > open_price v) \<and>
     (profit_loss v = ''loss'' \<longleftrightarrow> \<not> close_price v > open_price v) \<and>
     (close_price v = open_price v \<longrightarrow> profit_loss v = ''loss'')"
    by simp
qed



lemmas prim_defs = mysql_connect_def is_connected_def sleep_def cursor_def cursor_close_def
  execute_insert_def commit_def rollback_def execute_statistics_def history_def
  emit_def logging_info_def logging_error_def now_def

lemmas run_defs = new_DatabaseManager_def connect_def ensure_connected_def max_retries_def
  retry_delay_def save_stock_details_def save_try_def except_Error_def row_values_def
  py_round_def update_profit_statistics_def update_try_def get_stock_data_def frame_row_def
  analyze_try_def analyze_stocks_def init_world_def empty_tables_def new_events_def

lemma range_3: "[0..<3] = [0, 1, 2]"
  by (simp add: numeral_3_eq_3 numeral_2_eq_2)

lemma W_conn_eq:
  "W_conn = \<lparr>durable = empty_tables, session = empty_tables, has_conn = True,
     trace = [EvConnect Ok, EvPing True],
     log = [(INFO, ''Successfully connected to MySQL database'')]\<rparr>"
  by (simp add: W_conn_def E_ok_def range_3 run_defs prim_defs)

lemma save_up_flat:
  "inserted (new_events W_conn (snd (save_stock_details E_ok [row_up, row_flat] W_conn)))
     = [detail_up, detail_flat]"
  by (simp add: W_conn_eq E_ok_def run_defs prim_defs row_up_def row_flat_def detail_up_def
      detail_flat_def)

theorem save_stock_details_profit_loss_witness:
  "detail_flat \<in> set (inserted (new_events W_conn
       (snd (save_stock_details E_ok [row_up, row_flat] W_conn))))
   \<and> close_price detail_flat = open_price detail_flat
   \<and> profit_loss detail_flat = ''loss''"
proof -
  have m: "detail_flat \<in> set (inserted (new_events W_conn
       (snd (save_stock_details E_ok [row_up, row_flat] W_conn))))"
    by (simp add: save_up_flat)
  have e: "close_price detail_flat = open_price detail_flat"
    by (simp add: detail_flat_def)
  from save_stock_details_profit_loss [of W_conn E_ok "[row_up, row_flat]"] m e show ?thesis by blast
qed


subsection \<open>Rollback and commit\<close>





text \<open>
  Claim C10. On a frame without rows, with the connection up and the cursor and the
  commit granted, \<^verbatim>\<open>save_stock_details\<close> inserts nothing, commits, and then raises the
  \<^verbatim>\<open>NameError\<close> of the unbound \<^verbatim>\<open>row\<close>; no rollback is issued and nothing is
  written to the log.
\<close>

theorem save_stock_details_empty_frame:
  assumes "ensure_connected E w = (Inr (), w0)"
    and "db_reply E (now w0) = Ok" and "db_reply E (Suc (now w0)) = Ok"
  shows "\<exists>w'. save_stock_details E [] w = (Inl (UnboundLocalError ''row''), w')
           \<and> is_name_error (UnboundLocalError ''row'')
           \<and> \<not> is_db_error (UnboundLocalError ''row'')
           \<and> new_events w0 w' = [EvCursor Ok, EvCommit Ok, EvCursorClose]
           \<and> durable w' = session w0 \<and> session w' = session w0 \<and> log w' = log w0"
  using assms
  by (simp add: save_stock_details_def save_try_def cursor_def commit_def except_Error_def
      cursor_close_def new_events_def Let_def now_def)


lemmas example_defs = E_ok_def E_deadlock_def E_dead_def row_up_def row_flat_def row_zero_def
  detail_up_def detail_flat_def


lemma save_up_flat_ok:
  "save_stock_details E_ok [row_up, row_flat] W_conn =
     (Inr (),
      W_conn\<lparr>trace := trace W_conn @ [EvPing True, EvCursor Ok, EvInsert detail_up Ok,
                 EvInsert detail_flat Ok, EvCommit Ok, EvCursorClose],
             log := log W_conn @ [(INFO, ''Successfully saved stock details for AAPL'')],
             session := append_rows [detail_up, detail_flat] empty_tables,
             durable := append_rows [detail_up, detail_flat] empty_tables\<rparr>)"
  by (simp add: W_conn_eq example_defs run_defs prim_defs append_rows_def)



theorem save_stock_details_empty_frame_witness:
  "ensure_connected E_ok W_conn = (Inr (), emit (EvPing True) W_conn)
   \<and> db_reply E_ok (now (emit (EvPing True) W_conn)) = Ok
   \<and> db_reply E_ok (Suc (now (emit (EvPing True) W_conn))) = Ok
   \<and> fst (save_stock_details E_ok [] W_conn) = Inl (UnboundLocalError ''row'')"
proof -
  have c: "ensure_connected E_ok W_conn = (Inr (), emit (EvPing True) W_conn)"
    by (simp add: W_conn_eq E_ok_def ensure_connected_def is_connected_def now_def)
  have a: "db_reply E_ok (now (emit (EvPing True) W_conn)) = Ok"
    by (simp add: E_ok_def)
  have b: "db_reply E_ok (Suc (now (emit (EvPing True) W_conn))) = Ok"
    by (simp add: E_ok_def)
  from save_stock_details_empty_frame [OF c a b] c a b show ?thesis by auto
qed

subsection \<open>connect without a connection\<close>

text \<open>
  Claim C4 at the input where it fails: three attempts that each return a connection
  whose \<^verbatim>\<open>is_connected()\<close> is false. \<^verbatim>\<open>connect\<close> returns without an exception,
  without a pause between the attempts and without a line in the log.
\<close>

theorem connect_returns_without_connection:
  "fst (connect E_dead init_world) = Inr ()
   \<and> trace (snd (connect E_dead init_world))
       = [EvConnect Ok, EvPing False, EvConnect Ok, EvPing False, EvConnect Ok, EvPing False]
   \<and> log (snd (connect E_dead init_world)) = []"
  by (simp add: example_defs range_3 run_defs prim_defs)

lemma str_nat_1: "str_nat (Suc 0) = ''1''"
  by code_simp

lemma str_nat_2: "str_nat (Suc (Suc 0)) = ''2''"
  by code_simp

lemma str_nat_3: "str_nat 3 = ''3''"
  by code_simp

text \<open>
  Three attempts that each raise: three lines in the log, a pause of five after the
  first and the second, and the final exception after the third.
\<close>

lemma connect_three_errors:
  assumes "db_reply E (now w) = Err m1" "db_reply E (Suc (Suc (now w))) = Err m2"
    "db_reply E (Suc (Suc (Suc (Suc (now w))))) = Err m3"
  shows "connect E w =
     (Inl (PyException ''Failed to connect to database after maximum retries''),
      w\<lparr>trace := trace w @ [EvConnect (Err m1), EvSleep 5, EvConnect (Err m2), EvSleep 5,
                             EvConnect (Err m3)],
        log := log w @ [(ERROR, ''Attempt 1 failed: '' @ m1), (ERROR, ''Attempt 2 failed: '' @ m2),
                         (ERROR, ''Attempt 3 failed: '' @ m3)]\<rparr>)"
  using assms
  by (simp add: connect_def range_3 max_retries_def retry_delay_def prim_defs str_nat_1
      str_nat_2 str_nat_3 Let_def)

subsection \<open>The outcomes of update_profit_statistics\<close>

lemma upsert_statistics_rows [simp]:
  "StockDetails (upsert_statistics today T) = StockDetails T"
  by (simp add: upsert_statistics_def)

lemma upsert_statistics_known:
  "t \<in> sd_ticker ` set (StockDetails T) \<Longrightarrow>
     ProfitStatistics (upsert_statistics today T) t = Some (select_group today (StockDetails T) t)"
  by (simp add: upsert_statistics_def)

lemma upsert_statistics_unknown:
  "t \<notin> sd_ticker ` set (StockDetails T) \<Longrightarrow>
     ProfitStatistics (upsert_statistics today T) t = ProfitStatistics T t"
  by (simp add: upsert_statistics_def)

lemma execute_statistics_cases:
  assumes "execute_statistics E w = (a, w')"
  shows "trace w' = trace w @ [EvStats a] \<and> durable w' = durable w \<and> log w' = log w
     \<and> session w' = (if a = Ok then upsert_statistics (curdate E (now w)) (session w)
                      else session w)"
  using assms by (auto simp: execute_statistics_def split: reply.splits)

lemma update_try_shape:
  assumes "update_try E w = (r, w')"
  obtains
    (failed) pre ev m where "r = Inl (DbError m)" "write_failed ev = Some m"
      "trace w' = trace w @ pre @ [ev]" "pre = [] \<or> pre = [EvStats Ok]"
      "session w' = session w \<or> session w' = upsert_statistics (curdate E (now w)) (session w)"
      "durable w' = durable w"
  | (ok) "r = Inr ()" "trace w' = trace w @ [EvStats Ok, EvCommit Ok]"
      "session w' = upsert_statistics (curdate E (now w)) (session w)"
      "durable w' = upsert_statistics (curdate E (now w)) (session w)"
      "log w' = log w @ [(INFO, ''Successfully updated profit statistics'')]"
proof -
  obtain a1 w1 where x: "execute_statistics E w = (a1, w1)" by force
  note x1 = execute_statistics_cases [OF x]
  show thesis
  proof (cases a1)
    case (Err m)
    with assms x have rw: "r = Inl (DbError m)" "w' = w1" by (simp_all add: update_try_def)
    show thesis using rw x1 Err
      by (intro failed [of m "EvStats (Err m)" "[]"]) simp_all
  next
    case Ok
    obtain a2 w2 where c: "commit E w1 = (a2, w2)" by force
    note cc = commit_cases [OF c]
    show thesis
    proof (cases a2)
      case (Err m)
      with assms x Ok c have rw: "r = Inl (DbError m)" "w' = w2"
        by (simp_all add: update_try_def)
      show thesis using rw x1 cc Ok Err
        by (intro failed [of m "EvCommit (Err m)" "[EvStats Ok]"]) simp_all
    next
      case Ok': Ok
      with assms x Ok c have rw: "r = Inr ()"
        "w' = logging_info ''Successfully updated profit statistics'' w2"
        by (simp_all add: update_try_def)
      show thesis using rw x1 cc Ok Ok'
        by (intro ok) simp_all
    qed
  qed
qed

lemma update_profit_statistics_shape:
  assumes "update_profit_statistics E w = (r, w')"
  obtains
    (u_noconn) "r = Inl (PyException ''Failed to connect to database after maximum retries'')"
      "conn_only w w'"
  | (u_nocursor) w0 m a where "r = Inl (UnboundLocalError ''cursor'')" "conn_only w w0"
      "trace w' = trace w0 @ [EvCursor (Err m), EvRollback a]" "durable w' = durable w"
      "session w' = session w0 \<or> session w' = durable w"
  | (u_failed) w0 pre ev m a where "write_failed ev = Some m" "conn_only w w0"
      "pre = [] \<or> pre = [EvStats Ok]"
      "trace w' = trace w0 @ EvCursor Ok # pre @ [ev, EvRollback a, EvCursorClose]"
      "durable w' = durable w"
      "a = Ok \<Longrightarrow> r = Inl (DbError m) \<and> session w' = durable w"
      "\<And>m'. a = Err m' \<Longrightarrow> r = Inl (DbError m') \<and>
         (session w' = session w0 \<or>
          session w' = upsert_statistics (curdate E (Suc (now w0))) (session w0))"
  | (u_ok) w0 where "r = Inr ()" "conn_only w w0"
      "trace w' = trace w0 @ [EvCursor Ok, EvStats Ok, EvCommit Ok, EvCursorClose]"
      "session w' = upsert_statistics (curdate E (Suc (now w0))) (session w0)"
      "durable w' = upsert_statistics (curdate E (Suc (now w0))) (session w0)"
proof -
  obtain r0 w0 where ec: "ensure_connected E w = (r0, w0)" by force
  note co = conn_only_ensure_connected [OF ec]
  then have d0: "durable w0 = durable w" by (simp add: conn_only_def)
  show thesis
  proof (cases r0)
    case (Inl e)
    with assms ec have rw: "r = Inl e" "w' = w0" by (simp_all add: update_profit_statistics_def)
    from ensure_connected_Inl [OF ec [unfolded Inl]] rw co show thesis
      by (intro u_noconn) simp_all
  next
    case (Inr u)
    obtain a1 w1 where cu: "cursor E w0 = (a1, w1)" by force
    note c1 = cursor_cases [OF cu]
    show thesis
    proof (cases a1)
      case (Err m)
      obtain e2 w2 where
        ex: "except_Error ''Error updating profit statistics: '' E (DbError m) w1 = (e2, w2)"
        by force
      from assms ec Inr cu Err ex have rw: "r = Inl (UnboundLocalError ''cursor'')" "w' = w2"
        by (simp_all add: update_profit_statistics_def)
      from except_Error_db [OF ex] obtain a where
        "trace w2 = trace w1 @ [EvRollback a]" "durable w2 = durable w1"
        "a = Ok \<longrightarrow> session w2 = durable w1" "\<forall>m'. a = Err m' \<longrightarrow> session w2 = session w1"
        by blast
      then show thesis using rw c1 Err co d0
        by (intro u_nocursor [of w0 m a]) (cases a; simp)+
    next
      case Ok
      obtain r2 w2 where st: "update_try E w1 = (r2, w2)" by force
      from st show thesis
      proof (cases rule: update_try_shape)
        case (failed pre ev m)
        obtain e3 w3 where
          ex: "except_Error ''Error updating profit statistics: '' E (DbError m) w2 = (e3, w3)"
          by force
        from assms ec Inr cu Ok st failed ex have rw: "r = Inl e3" "w' = cursor_close w3"
          by (simp_all add: update_profit_statistics_def)
        from except_Error_db [OF ex] obtain a where
          "trace w3 = trace w2 @ [EvRollback a]" "durable w3 = durable w2"
          "a = Ok \<longrightarrow> e3 = DbError m \<and> session w3 = durable w2"
          "\<forall>m'. a = Err m' \<longrightarrow> e3 = DbError m' \<and> session w3 = session w2"
          by blast
        then show thesis using rw failed c1 co d0 Ok
          by (intro u_failed [of ev m w0 pre a]) (auto simp: cursor_close_def)
      next
        case ok
        with assms ec Inr cu Ok st have rw: "r = Inr ()" "w' = cursor_close w2"
          by (simp_all add: update_profit_statistics_def)
        show thesis using rw ok c1 co Ok
          by (intro u_ok [of w0]) (simp_all add: cursor_close_def)
      qed
    qed
  qed
qed


subsection \<open>The invariant of the table StockDetails\<close>

lemma rows_ok_append:
  assumes "rows_ok T" "map Inr vs = map row_values (take n df)"
  shows "rows_ok (append_rows vs T)"
proof -
  have "profit_loss v = ''profit'' \<or> profit_loss v = ''loss''" if "v \<in> set vs" for v
  proof -
    from prefix_rows [OF assms(2) that] obtain r where "row_values r = Inr v" by blast
    from row_values_Inr(8) [OF this] show ?thesis by simp
  qed
  with assms(1) show ?thesis by (auto simp: rows_ok_def append_rows_def)
qed

lemma rows_ok_upsert [simp]: "rows_ok (upsert_statistics today T) = rows_ok T"
  by (simp add: rows_ok_def)

lemma tables_ok_conn_only: "conn_only w w' \<Longrightarrow> tables_ok w \<Longrightarrow> tables_ok w'"
  by (auto simp: conn_only_def tables_ok_def)

lemma tables_ok_save_stock_details:
  assumes "tables_ok w"
  shows "tables_ok (snd (save_stock_details E df w))"
proof -
  obtain r w' where s: "save_stock_details E df w = (r, w')" by force
  from s have "tables_ok w'"
  proof (cases rule: save_stock_details_shape)
    case s_noconn
    then show ?thesis using assms by (auto intro: tables_ok_conn_only)
  next
    case (s_nocursor w0 m a)
    with tables_ok_conn_only [OF s_nocursor(2) assms] assms show ?thesis
      by (auto simp: tables_ok_def)
  next
    case (s_zero w0 vs)
    with tables_ok_conn_only [OF s_zero(2) assms] assms rows_ok_append [OF _ s_zero(3)]
    show ?thesis by (auto simp: tables_ok_def)
  next
    case (s_failed w0 vs ev m a)
    with tables_ok_conn_only [OF s_failed(2) assms] assms rows_ok_append [OF _ s_failed(3)]
    show ?thesis by (cases a) (auto simp: tables_ok_def)
  next
    case (s_empty w0)
    with tables_ok_conn_only [OF s_empty(3) assms] show ?thesis by (auto simp: tables_ok_def)
  next
    case (s_ok w0 vs)
    with tables_ok_conn_only [OF s_ok(3) assms] rows_ok_append [OF _ all_rows_take [OF s_ok(4)]]
    show ?thesis by (auto simp: tables_ok_def)
  qed
  with s show ?thesis by simp
qed

lemma tables_ok_update_profit_statistics:
  assumes "tables_ok w"
  shows "tables_ok (snd (update_profit_statistics E w))"
proof -
  obtain r w' where s: "update_profit_statistics E w = (r, w')" by force
  from s have "tables_ok w'"
  proof (cases rule: update_profit_statistics_shape)
    case u_noconn
    then show ?thesis using assms by (auto intro: tables_ok_conn_only)
  next
    case (u_nocursor w0 m a)
    with tables_ok_conn_only [OF u_nocursor(2) assms] assms show ?thesis
      by (auto simp: tables_ok_def)
  next
    case (u_failed w0 pre ev m a)
    with tables_ok_conn_only [OF u_failed(2) assms] assms show ?thesis
      by (cases a) (auto simp: tables_ok_def)
  next
    case (u_ok w0)
    with tables_ok_conn_only [OF u_ok(2) assms] show ?thesis by (auto simp: tables_ok_def)
  qed
  with s show ?thesis by simp
qed

lemma get_stock_data_world:
  "snd (get_stock_data E t w) =
     (case provider E (now w) t of
        FetchError m \<Rightarrow>
          logging_error (''Error fetching data for '' @ t @ '': '' @ m)
            (emit (EvFetch t (FetchError m)) w)
      | Frame bars \<Rightarrow> emit (EvFetch t (Frame bars)) w)"
  by (cases "provider E (now w) t") (simp_all add: get_stock_data_def history_def Let_def)

lemma get_stock_data_tables:
  assumes "get_stock_data E t w = (d, w')"
  shows "durable w' = durable w" "session w' = session w" "has_conn w' = has_conn w"
    "trace w' = trace w @ [EvFetch t (provider E (now w) t)]"
proof -
  from assms have w': "w' = snd (get_stock_data E t w)" by simp
  show "durable w' = durable w" "session w' = session w" "has_conn w' = has_conn w"
    "trace w' = trace w @ [EvFetch t (provider E (now w) t)]"
    unfolding w' get_stock_data_world
    by (cases "provider E (now w) t"; simp)+
qed

lemma tables_ok_get_stock_data: "tables_ok w \<Longrightarrow> tables_ok (snd (get_stock_data E t w))"
proof -
  assume i: "tables_ok w"
  obtain d w' where g: "get_stock_data E t w = (d, w')" by force
  from get_stock_data_tables(1,2) [OF g] i g show ?thesis by (simp add: tables_ok_def)
qed

lemma tables_ok_analyze_loop: "tables_ok w \<Longrightarrow> tables_ok (snd (analyze_loop E ts w))"
proof (induction ts arbitrary: w)
  case Nil
  then show ?case by simp
next
  case (Cons t ts)
  obtain d w1 where g: "get_stock_data E t w = (d, w1)" by force
  from tables_ok_get_stock_data [OF Cons.prems, of E t] g have i1: "tables_ok w1" by simp
  show ?case
  proof (cases d)
    case None
    with g Cons.IH [OF i1] show ?thesis by simp
  next
    case (Some df)
    obtain r w2 where s: "save_stock_details E df w1 = (r, w2)" by force
    from tables_ok_save_stock_details [OF i1, of E df] s have i2: "tables_ok w2" by simp
    with g Some s Cons.IH [OF i2] show ?thesis by (cases r) simp_all
  qed
qed

lemma tables_ok_analyze_stocks: "tables_ok w \<Longrightarrow> tables_ok (snd (analyze_stocks E ts w))"
proof -
  assume i: "tables_ok w"
  obtain r w1 where l: "analyze_loop E ts w = (r, w1)" by force
  from tables_ok_analyze_loop [OF i, of E ts] l have i1: "tables_ok w1" by simp
  obtain r2 w2 where u: "update_profit_statistics E w1 = (r2, w2)" by force
  from tables_ok_update_profit_statistics [OF i1, of E] u have i2: "tables_ok w2" by simp
  from l u i1 i2 show ?thesis
    by (cases r; cases r2) (simp_all add: analyze_stocks_def analyze_try_def tables_ok_def Let_def)
qed

lemma tables_ok_connect: "tables_ok w \<Longrightarrow> tables_ok (snd (new_DatabaseManager E w))"
proof -
  assume i: "tables_ok w"
  then have i': "tables_ok (w\<lparr>has_conn := False\<rparr>)" by (simp add: tables_ok_def)
  obtain r w' where c: "connect_loop E [0..<max_retries] (w\<lparr>has_conn := False\<rparr>) = (r, w')"
    by force
  from tables_ok_conn_only [OF conn_only_connect_loop [OF c] i'] c show ?thesis
    by (simp add: new_DatabaseManager_def connect_def)
qed

lemma reachable_tables_ok: "reachable E w \<Longrightarrow> tables_ok w"
proof (induction rule: reachable.induct)
  case start
  show ?case by (simp add: tables_ok_def rows_ok_def init_world_def empty_tables_def)
next
  case (manager w)
  then show ?case by (simp add: tables_ok_connect)
next
  case (save w df)
  then show ?case by (simp add: tables_ok_save_stock_details)
next
  case (update w)
  then show ?case by (simp add: tables_ok_update_profit_statistics)
next
  case (fetch w t)
  then show ?case by (simp add: tables_ok_get_stock_data)
next
  case (analyze w ts)
  then show ?case by (simp add: tables_ok_analyze_stocks)
qed

subsection \<open>The statistics\<close>

lemma sum_case_profit_loss:
  assumes "\<forall>v \<in> set g. profit_loss v = ''profit'' \<or> profit_loss v = ''loss''"
  shows "sum_case ''profit'' g + sum_case ''loss'' g = length g"
  using assms by (induction g) (auto simp: sum_case_def)

lemma group_of_nonempty: "t \<in> sd_ticker ` set rows \<Longrightarrow> group_of t rows \<noteq> []"
  by (auto simp: group_of_def filter_empty_conv)

lemma update_ok_statistics:
  assumes "update_profit_statistics E w = (Inr u, w')"
  obtains w0 where "conn_only w w0"
    "durable w' = upsert_statistics (curdate E (Suc (now w0))) (session w0)"
    "session w' = durable w'" "now w \<le> Suc (now w0)" "Suc (now w0) < now w'"
  using assms
proof (cases rule: update_profit_statistics_shape)
  case u_noconn
  then show ?thesis by simp
next
  case (u_nocursor w0 m a)
  then show ?thesis by simp
next
  case (u_failed w0 pre ev m a)
  then show ?thesis by (cases a) simp_all
next
  case (u_ok w0)
  from u_ok(2) have "now w \<le> now w0" by (auto simp: conn_only_def ext_def now_def)
  moreover from u_ok(3) have "Suc (now w0) < now w'" by (simp add: now_def)
  ultimately show ?thesis using u_ok by (intro that [of w0]) simp_all
qed

text \<open>
  Claim C5. In a database that this program has filled, after a run of
  \<^verbatim>\<open>update_profit_statistics\<close> that returns, every ticker of \<^verbatim>\<open>StockDetails\<close> has a row
  in \<^verbatim>\<open>ProfitStatistics\<close> whose total is the sum of its profit days and its loss days.
\<close>

theorem update_profit_statistics_total_days:
  assumes "reachable E w" and "update_profit_statistics E w = (Inr (), w')"
  shows "\<forall>t \<in> tickers_of (durable w').
           \<exists>st. ProfitStatistics (durable w') t = Some st
              \<and> total_days st = profit_days st + loss_days st"
proof
  fix t assume t: "t \<in> tickers_of (durable w')"
  from assms(2) obtain w0 where co: "conn_only w w0"
    and d: "durable w' = upsert_statistics (curdate E (Suc (now w0))) (session w0)"
    by (rule update_ok_statistics)
  from tables_ok_conn_only [OF co reachable_tables_ok [OF assms(1)]] have ok: "rows_ok (session w0)"
    by (simp add: tables_ok_def)
  let ?rows = "StockDetails (session w0)"
  let ?st = "select_group (curdate E (Suc (now w0))) ?rows t"
  from t d have k: "t \<in> sd_ticker ` set ?rows" by (simp add: tickers_of_def)
  from ok have "\<forall>v \<in> set (group_of t ?rows). profit_loss v = ''profit'' \<or> profit_loss v = ''loss''"
    by (auto simp: rows_ok_def group_of_def)
  from sum_case_profit_loss [OF this]
  have "total_days ?st = profit_days ?st + loss_days ?st"
    by (simp add: select_group_def Let_def)
  with upsert_statistics_known [OF k] d
  show "\<exists>st. ProfitStatistics (durable w') t = Some st
              \<and> total_days st = profit_days st + loss_days st"
    by simp
qed


lemma sql_div_close:
  "\<bar>sql_div a b * 100 - of_nat a / of_nat b * 100\<bar> \<le> 1 / 200"
proof -
  define x :: rat where "x = of_nat a / of_nat b"
  define f :: int where "f = \<lfloor>x * 10000 + 1 / 2\<rfloor>"
  have lo: "of_int f \<le> x * 10000 + 1 / 2" unfolding f_def by (rule of_int_floor_le)
  have hi: "x * 10000 + 1 / 2 < of_int f + 1" unfolding f_def by (rule floor_correct [THEN conjunct2, simplified])
  have e: "sql_div a b = of_int f / 10000" by (simp add: sql_div_def f_def x_def)
  have "\<bar>of_int f / 10000 * 100 - x * 100\<bar> \<le> 1 / 200"
  proof -
    have "of_int f / 10000 * 100 - x * 100 \<le> 1 / 200" using lo by linarith
    moreover have "- (of_int f / 10000 * 100 - x * 100) \<le> 1 / 200" using hi by linarith
    ultimately show ?thesis by (rule abs_leI)
  qed
  then show ?thesis unfolding e x_def .
qed

text \<open>
  Claim C6. After a run of \<^verbatim>\<open>update_profit_statistics\<close> that returns, the stored
  probability of every ticker of \<^verbatim>\<open>StockDetails\<close> is its profit days over its total days
  times one hundred, up to the rounding of the quotient to four decimals: the two differ
  by at most \<open>0.005\<close>.
\<close>

theorem update_profit_statistics_probability:
  assumes "update_profit_statistics E w = (Inr (), w')"
  shows "\<forall>t \<in> tickers_of (durable w').
           \<exists>st. ProfitStatistics (durable w') t = Some st \<and> 0 < total_days st
              \<and> \<bar>profit_probability st
                   - of_nat (profit_days st) / of_nat (total_days st) * 100\<bar> \<le> 1 / 200"
proof
  fix t assume t: "t \<in> tickers_of (durable w')"
  from assms obtain w0 where
    d: "durable w' = upsert_statistics (curdate E (Suc (now w0))) (session w0)"
    by (rule update_ok_statistics)
  let ?rows = "StockDetails (session w0)"
  let ?st = "select_group (curdate E (Suc (now w0))) ?rows t"
  from t d have k: "t \<in> sd_ticker ` set ?rows" by (simp add: tickers_of_def)
  from group_of_nonempty [OF k] have pos: "0 < total_days ?st"
    by (simp add: select_group_def Let_def)
  have "\<bar>profit_probability ?st
         - of_nat (profit_days ?st) / of_nat (total_days ?st) * 100\<bar> \<le> 1 / 200"
    using sql_div_close [of "sum_case ''profit'' (group_of t ?rows)" "length (group_of t ?rows)"]
    by (simp add: select_group_def Let_def)
  with pos upsert_statistics_known [OF k] d
  show "\<exists>st. ProfitStatistics (durable w') t = Some st \<and> 0 < total_days st
              \<and> \<bar>profit_probability st
                   - of_nat (profit_days st) / of_nat (total_days st) * 100\<bar> \<le> 1 / 200"
    by simp
qed

text \<open>
  Claim C7. Two runs of \<^verbatim>\<open>update_profit_statistics\<close> in a row, both returning: the second
  leaves \<^verbatim>\<open>StockDetails\<close> and the four computed fields of every row of
  \<^verbatim>\<open>ProfitStatistics\<close> as the first left them, and dates every ticker of
  \<^verbatim>\<open>StockDetails\<close> with the server's date at the second run.
\<close>

theorem update_profit_statistics_idempotent:
  assumes "update_profit_statistics E w = (Inr (), w1)"
    and "update_profit_statistics E w1 = (Inr (), w2)"
  shows "StockDetails (durable w2) = StockDetails (durable w1)
     \<and> (\<forall>t. map_option computed_fields (ProfitStatistics (durable w2) t)
            = map_option computed_fields (ProfitStatistics (durable w1) t))
     \<and> (\<forall>t \<in> tickers_of (durable w1).
           \<exists>st n. ProfitStatistics (durable w2) t = Some st \<and> now w1 \<le> n \<and> n < now w2
                \<and> last_calculated st = curdate E n)"
proof -
  from assms(1) obtain w0 where
    d1: "durable w1 = upsert_statistics (curdate E (Suc (now w0))) (session w0)"
    and s1: "session w1 = durable w1"
    by (rule update_ok_statistics)
  from assms(2) obtain w0' where co: "conn_only w1 w0'"
    and d2: "durable w2 = upsert_statistics (curdate E (Suc (now w0'))) (session w0')"
    and n: "now w1 \<le> Suc (now w0')" "Suc (now w0') < now w2"
    by (rule update_ok_statistics)
  from co s1 have s0: "session w0' = durable w1" by (auto simp: conn_only_def)
  let ?rows = "StockDetails (session w0)"
  have rows1: "StockDetails (durable w1) = ?rows" using d1 by simp
  have rows2: "StockDetails (durable w2) = ?rows" using d2 s0 rows1 by simp
  have same: "map_option computed_fields (ProfitStatistics (durable w2) t)
            = map_option computed_fields (ProfitStatistics (durable w1) t)" for t
  proof (cases "t \<in> sd_ticker ` set ?rows")
    case True
    then have "t \<in> sd_ticker ` set (StockDetails (session w0'))" using s0 rows1 by simp
    from upsert_statistics_known [OF this] upsert_statistics_known [OF True] d1 d2 s0 rows1
    show ?thesis by (simp add: computed_fields_def select_group_def Let_def)
  next
    case False
    then have "t \<notin> sd_ticker ` set (StockDetails (session w0'))" using s0 rows1 by simp
    from upsert_statistics_unknown [OF this] d2 s0 show ?thesis by simp
  qed
  have dated: "\<exists>st n. ProfitStatistics (durable w2) t = Some st \<and> now w1 \<le> n \<and> n < now w2
                \<and> last_calculated st = curdate E n" if "t \<in> tickers_of (durable w1)" for t
  proof -
    from that rows1 s0 have "t \<in> sd_ticker ` set (StockDetails (session w0'))"
      by (simp add: tickers_of_def)
    from upsert_statistics_known [OF this] d2 n show ?thesis
      by (intro exI [of _ "select_group (curdate E (Suc (now w0'))) (StockDetails (session w0')) t"]
          exI [of _ "Suc (now w0')"]) (simp add: select_group_def Let_def)
  qed
  from rows1 rows2 same dated show ?thesis by simp
qed


lemmas sql_defs = upsert_statistics_def select_group_def group_of_def sum_case_def sql_div_def
  tickers_of_def

lemma W_saved_eq:
  "W_saved = W_conn\<lparr>trace := trace W_conn @ [EvPing True, EvCursor Ok, EvInsert detail_up Ok,
                 EvInsert detail_flat Ok, EvCommit Ok, EvCursorClose],
             log := log W_conn @ [(INFO, ''Successfully saved stock details for AAPL'')],
             session := append_rows [detail_up, detail_flat] empty_tables,
             durable := append_rows [detail_up, detail_flat] empty_tables\<rparr>"
  by (simp add: W_saved_def save_up_flat_ok)

lemma reachable_W_saved: "reachable E_ok W_saved"
  unfolding W_saved_def W_conn_def
  by (intro reachable.save reachable.manager reachable.start)

lemma floor_half_example: "\<lfloor>10001 / 2 :: rat\<rfloor> = 5000"
  by code_simp

lemma update_saved:
  "fst (update_profit_statistics E_ok W_saved) = Inr ()"
  "StockDetails (durable (snd (update_profit_statistics E_ok W_saved)))
     = [detail_up, detail_flat]"
  "ProfitStatistics (durable (snd (update_profit_statistics E_ok W_saved))) ''AAPL''
     = Some \<lparr>total_days = 2, profit_days = 1, loss_days = 1, profit_probability = 50,
              last_calculated = 20000\<rparr>"
  by (simp_all add: W_saved_eq W_conn_eq example_defs run_defs prim_defs append_rows_def
      sql_defs floor_half_example)

lemma update_saved_pair:
  "update_profit_statistics E_ok W_saved
     = (Inr (), snd (update_profit_statistics E_ok W_saved))"
  using update_saved(1) by (simp add: prod_eq_iff)

lemma update_saved_twice:
  "fst (update_profit_statistics E_ok (snd (update_profit_statistics E_ok W_saved))) = Inr ()"
  by (simp add: W_saved_eq W_conn_eq example_defs run_defs prim_defs append_rows_def
      sql_defs)

lemma AAPL_saved:
  "''AAPL'' \<in> tickers_of (durable (snd (update_profit_statistics E_ok W_saved)))"
  by (simp add: tickers_of_def update_saved(2) detail_up_def)

theorem update_profit_statistics_total_days_witness:
  "reachable E_ok W_saved
   \<and> ''AAPL'' \<in> tickers_of (durable (snd (update_profit_statistics E_ok W_saved)))
   \<and> (\<exists>st. ProfitStatistics (durable (snd (update_profit_statistics E_ok W_saved))) ''AAPL''
             = Some st \<and> total_days st = profit_days st + loss_days st)"
  using update_profit_statistics_total_days [OF reachable_W_saved update_saved_pair] reachable_W_saved
    AAPL_saved
  by blast

theorem update_profit_statistics_probability_witness:
  "''AAPL'' \<in> tickers_of (durable (snd (update_profit_statistics E_ok W_saved)))
   \<and> (\<exists>st. ProfitStatistics (durable (snd (update_profit_statistics E_ok W_saved))) ''AAPL''
             = Some st \<and> 0 < total_days st
           \<and> \<bar>profit_probability st
                - of_nat (profit_days st) / of_nat (total_days st) * 100\<bar> \<le> 1 / 200)"
  using update_profit_statistics_probability [OF update_saved_pair] AAPL_saved
  by blast

theorem update_profit_statistics_idempotent_witness:
  "update_profit_statistics E_ok W_saved
     = (Inr (), snd (update_profit_statistics E_ok W_saved))
   \<and> fst (update_profit_statistics E_ok (snd (update_profit_statistics E_ok W_saved))) = Inr ()
   \<and> map_option computed_fields (ProfitStatistics (durable (snd (update_profit_statistics E_ok
          (snd (update_profit_statistics E_ok W_saved))))) ''AAPL'')
       = Some (2, 1, 1, 50)"
proof -
  let ?w1 = "snd (update_profit_statistics E_ok W_saved)"
  let ?w2 = "snd (update_profit_statistics E_ok ?w1)"
  have two: "update_profit_statistics E_ok ?w1 = (Inr (), ?w2)"
    using update_saved_twice by (simp add: prod_eq_iff)
  from update_profit_statistics_idempotent [OF update_saved_pair two]
  have "map_option computed_fields (ProfitStatistics (durable ?w2) ''AAPL'')
      = map_option computed_fields (ProfitStatistics (durable ?w1) ''AAPL'')"
    by blast
  then show ?thesis using update_saved_pair update_saved_twice
    by (simp add: update_saved(3) computed_fields_def)
qed

subsection \<open>Fetching and the analysis run\<close>

text \<open>
  Claim C8. A provider error or an empty frame never leaves \<^verbatim>\<open>get_stock_data\<close>: the
  method returns \<open>None\<close>, with a line in the log for the error. The tables are untouched,
  the only outside call is the fetch, and the loop of \<^verbatim>\<open>analyze_stocks\<close> goes on with the
  remaining tickers; with no ticker left it ends without an exception.
\<close>

theorem get_stock_data_no_data:
  assumes "no_data (provider E (now w) t)"
  shows "\<exists>w1. get_stock_data E t w = (None, w1)
           \<and> durable w1 = durable w \<and> session w1 = session w
           \<and> new_events w w1 = [EvFetch t (provider E (now w) t)]
           \<and> log w1 = log w @ fetch_log t (provider E (now w) t)
           \<and> analyze_loop E (t # ts) w = analyze_loop E ts w1
           \<and> analyze_loop E [t] w = (Inr (), w1)"
proof (cases "provider E (now w) t")
  case (FetchError m)
  then show ?thesis
    by (simp add: get_stock_data_def history_def Let_def new_events_def now_def)
next
  case (Frame bars)
  with assms have "bars = []" by simp
  with Frame show ?thesis
    by (simp add: get_stock_data_def history_def Let_def new_events_def now_def)
qed

lemma analyze_down:
  "fst (analyze_stocks E_down [''XXXX''] W_conn) = (True, ''Analysis completed successfully'')"
  "StockDetails (durable (snd (analyze_stocks E_down [''XXXX''] W_conn))) = []"
  by (simp_all add: W_conn_eq E_down_def example_defs run_defs prim_defs sql_defs Let_def)

theorem get_stock_data_no_data_witness:
  "no_data (provider E_down (now W_conn) ''XXXX'')
   \<and> fst (get_stock_data E_down ''XXXX'' W_conn) = None
   \<and> fst (analyze_loop E_down [''XXXX''] W_conn) = Inr ()
   \<and> fst (analyze_stocks E_down [''XXXX''] W_conn) = (True, ''Analysis completed successfully'')
   \<and> StockDetails (durable (snd (analyze_stocks E_down [''XXXX''] W_conn))) = []"
proof -
  have n: "no_data (provider E_down (now W_conn) ''XXXX'')"
    by (simp add: E_down_def E_ok_def)
  from get_stock_data_no_data [OF n, of "[]"] obtain w1 where
    "get_stock_data E_down ''XXXX'' W_conn = (None, w1)"
    "analyze_loop E_down [''XXXX''] W_conn = (Inr (), w1)"
    by blast
  with n analyze_down show ?thesis by simp
qed

lemma analyze_loop_abort:
  "analyze_loop E ts1 w = (Inl e, w1) \<Longrightarrow> analyze_loop E (ts1 @ ts2) w = (Inl e, w1)"
proof (induction ts1 arbitrary: w)
  case Nil
  then show ?case by simp
next
  case (Cons t ts1)
  obtain d wa where g: "get_stock_data E t w = (d, wa)" by force
  show ?case
  proof (cases d)
    case None
    with g Cons.prems have "analyze_loop E ts1 wa = (Inl e, w1)" by simp
    from Cons.IH [OF this] g None show ?thesis by simp
  next
    case (Some df)
    obtain r wb where s: "save_stock_details E df wa = (r, wb)" by force
    show ?thesis
    proof (cases r)
      case (Inl e')
      with g Some s Cons.prems show ?thesis by simp
    next
      case (Inr u)
      with g Some s Cons.prems have "analyze_loop E ts1 wb = (Inl e, w1)" by simp
      from Cons.IH [OF this] g Some s Inr show ?thesis by simp
    qed
  qed
qed

text \<open>
  Claim C9. \<^verbatim>\<open>analyze_stocks\<close> always returns its pair. It is \<open>True\<close> with the success
  message when the loop and the statistics both return. When the statistics raise, or
  when the loop raises at some ticker, the pair is \<open>False\<close> with the text of the exception
  after \<^verbatim>\<open>Analysis failed: \<close>; in the second case the later tickers are not fetched and
  the statistics are not run: the state is the one the failing call left, plus the line
  in the log.
\<close>

theorem analyze_stocks_result:
  "(analyze_loop E ts w = (Inr (), w1) \<and> update_profit_statistics E w1 = (Inr (), w2) \<longrightarrow>
      analyze_stocks E ts w = ((True, ''Analysis completed successfully''), w2))
   \<and> (analyze_loop E ts w = (Inr (), w1) \<and> update_profit_statistics E w1 = (Inl e, w2) \<longrightarrow>
      analyze_stocks E ts w
        = ((False, ''Analysis failed: '' @ str_exn e),
           logging_error (''Analysis failed: '' @ str_exn e) w2))
   \<and> (analyze_loop E ts w = (Inl e, w1) \<longrightarrow>
      analyze_stocks E (ts @ ts') w
        = ((False, ''Analysis failed: '' @ str_exn e),
           logging_error (''Analysis failed: '' @ str_exn e) w1))
   \<and> (fst (fst (analyze_stocks E ts w)) \<longleftrightarrow> (\<exists>w'. analyze_try E ts w = (Inr (), w')))"
proof (intro conjI impI)
  assume "analyze_loop E ts w = (Inr (), w1) \<and> update_profit_statistics E w1 = (Inr (), w2)"
  then show "analyze_stocks E ts w = ((True, ''Analysis completed successfully''), w2)"
    by (simp add: analyze_stocks_def analyze_try_def)
next
  assume "analyze_loop E ts w = (Inr (), w1) \<and> update_profit_statistics E w1 = (Inl e, w2)"
  then show "analyze_stocks E ts w
        = ((False, ''Analysis failed: '' @ str_exn e),
           logging_error (''Analysis failed: '' @ str_exn e) w2)"
    by (simp add: analyze_stocks_def analyze_try_def Let_def)
next
  assume "analyze_loop E ts w = (Inl e, w1)"
  from analyze_loop_abort [OF this, of ts']
  show "analyze_stocks E (ts @ ts') w
        = ((False, ''Analysis failed: '' @ str_exn e),
           logging_error (''Analysis failed: '' @ str_exn e) w1)"
    by (simp add: analyze_stocks_def analyze_try_def Let_def)
next
  obtain r w' where t: "analyze_try E ts w = (r, w')" by force
  then show "fst (fst (analyze_stocks E ts w)) \<longleftrightarrow> (\<exists>w'. analyze_try E ts w = (Inr (), w'))"
    by (cases r) (simp_all add: analyze_stocks_def Let_def)
qed


lemma analyze_examples:
  "fst (analyze_loop E_down [''XXXX''] W_conn) = Inr ()"
  "fst (update_profit_statistics E_down (snd (analyze_loop E_down [''XXXX''] W_conn))) = Inr ()"
  "analyze_loop E_timeout [] W_conn = (Inr (), W_conn)"
  "fst (update_profit_statistics E_timeout W_conn) = Inl (DbError ''Lock wait timeout exceeded'')"
  "fst (analyze_loop E_zero [''AAPL''] W_conn) = Inl ZeroDivisionError"
  by (simp_all add: W_conn_eq E_down_def E_timeout_def E_zero_def bar_zero_def example_defs
      run_defs prim_defs sql_defs Let_def)

theorem analyze_stocks_result_witness:
  "(fst (analyze_loop E_down [''XXXX''] W_conn) = Inr ()
      \<and> fst (analyze_stocks E_down [''XXXX''] W_conn)
          = (True, ''Analysis completed successfully''))
   \<and> (fst (update_profit_statistics E_timeout W_conn)
          = Inl (DbError ''Lock wait timeout exceeded'')
      \<and> fst (analyze_stocks E_timeout [] W_conn)
          = (False, ''Analysis failed: Lock wait timeout exceeded''))
   \<and> (fst (analyze_loop E_zero [''AAPL''] W_conn) = Inl ZeroDivisionError
      \<and> fst (analyze_stocks E_zero [''AAPL'', ''MSFT''] W_conn)
          = (False, ''Analysis failed: float division by zero''))"
proof -
  let ?w1 = "snd (analyze_loop E_down [''XXXX''] W_conn)"
  let ?w2 = "snd (update_profit_statistics E_down ?w1)"
  let ?w3 = "snd (update_profit_statistics E_timeout W_conn)"
  let ?w4 = "snd (analyze_loop E_zero [''AAPL''] W_conn)"
  have a: "analyze_loop E_down [''XXXX''] W_conn = (Inr (), ?w1)"
    using analyze_examples(1) by (simp add: prod_eq_iff)
  have b: "update_profit_statistics E_down ?w1 = (Inr (), ?w2)"
    using analyze_examples(2) by (simp add: prod_eq_iff)
  have c: "update_profit_statistics E_timeout W_conn
      = (Inl (DbError ''Lock wait timeout exceeded''), ?w3)"
    using analyze_examples(4) by (simp add: prod_eq_iff)
  have d: "analyze_loop E_zero [''AAPL''] W_conn = (Inl ZeroDivisionError, ?w4)"
    using analyze_examples(5) by (simp add: prod_eq_iff)
  from analyze_stocks_result [of E_down "[''XXXX'']" W_conn ?w1 ?w2] a b
  have 1: "fst (analyze_stocks E_down [''XXXX''] W_conn)
      = (True, ''Analysis completed successfully'')"
    by simp
  from analyze_stocks_result [of E_timeout "[]" W_conn W_conn ?w3
      "DbError ''Lock wait timeout exceeded''"]
    analyze_examples(3) c
  have 2: "fst (analyze_stocks E_timeout [] W_conn)
      = (False, ''Analysis failed: Lock wait timeout exceeded'')"
    by simp
  from analyze_stocks_result [of E_zero "[''AAPL'']" W_conn ?w4 _ ZeroDivisionError "[''MSFT'']"] d
  have 3: "fst (analyze_stocks E_zero [''AAPL'', ''MSFT''] W_conn)
      = (False, ''Analysis failed: float division by zero'')"
    by simp
  from 1 2 3 analyze_examples(1,4,5) show ?thesis by simp
qed

subsection \<open>The connection after the guard\<close>

text \<open>
  After the guard at the head of a writing method, \<^verbatim>\<open>self.connection\<close> is an object: an
  attempt that raises is either followed by another one or, being the last, ends the
  method with its exception. So no call on \<^verbatim>\<open>self.connection\<close> meets \<^verbatim>\<open>None\<close>, and the
  model has no \<^verbatim>\<open>AttributeError\<close>.
\<close>

lemma has_conn_mysql_connect:
  "mysql_connect E w = (a, w') \<Longrightarrow> has_conn w' = (a = Ok \<or> has_conn w)"
  by (auto simp: mysql_connect_def split: reply.splits)

lemma has_conn_is_connected: "is_connected E w = (b, w') \<Longrightarrow> has_conn w' = has_conn w"
  by (auto simp: is_connected_def Let_def)

lemma connect_loop_keeps_conn: "has_conn w \<Longrightarrow> has_conn (snd (connect_loop E as w))"
proof (induction as arbitrary: w)
  case Nil
  then show ?case by simp
next
  case (Cons a as)
  obtain r1 w1 where c: "mysql_connect E w = (r1, w1)" by force
  obtain b w2 where p: "is_connected E w1 = (b, w2)" by force
  from has_conn_mysql_connect [OF c] Cons.prems have h1: "has_conn w1" by simp
  with has_conn_is_connected [OF p] have h2: "has_conn w2" by simp
  show ?case
  proof (cases r1)
    case Ok
    with c p h2 Cons.IH [OF h2] show ?thesis by (cases b) simp_all
  next
    case (Err m)
    let ?w = "sleep retry_delay
      (logging_error (''Attempt '' @ str_nat (a + 1) @ '' failed: '' @ m) w1)"
    from h1 have "has_conn ?w" by (simp add: sleep_def)
    from Cons.IH [OF this] c Err h1 show ?thesis by (simp add: Let_def)
  qed
qed

lemma connect_loop_has_conn:
  assumes "connect_loop E as w = (Inr u, w')" "as \<noteq> []" "last as = max_retries - 1"
  shows "has_conn w'"
  using assms
proof (induction as arbitrary: w)
  case Nil
  then show ?case by simp
next
  case (Cons a as)
  obtain r1 w1 where c: "mysql_connect E w = (r1, w1)" by force
  obtain b w2 where p: "is_connected E w1 = (b, w2)" by force
  show ?case
  proof (cases r1)
    case Ok
    with has_conn_mysql_connect [OF c] has_conn_is_connected [OF p] have h2: "has_conn w2"
      by simp
    show ?thesis
    proof (cases b)
      case True
      with Cons.prems(1) c p Ok h2 show ?thesis by auto
    next
      case False
      with Cons.prems(1) c p Ok have "connect_loop E as w2 = (Inr u, w')" by simp
      with connect_loop_keeps_conn [OF h2, of E as] show ?thesis by simp
    qed
  next
    case (Err m)
    let ?w = "sleep retry_delay
      (logging_error (''Attempt '' @ str_nat (a + 1) @ '' failed: '' @ m) w1)"
    from Cons.prems(1) c Err have lt: "a < max_retries - 1"
      and rest: "connect_loop E as ?w = (Inr u, w')"
      by (simp_all add: Let_def split: if_splits)
    from lt Cons.prems(3) have ne: "as \<noteq> []" by auto
    with Cons.prems(3) have "last as = max_retries - 1" by simp
    from Cons.IH [OF rest ne this] show ?thesis .
  qed
qed

lemma connect_has_conn:
  assumes "connect E w = (Inr u, w')"
  shows "has_conn w'"
proof -
  have a: "[0..<max_retries] \<noteq> []" by (simp add: max_retries_def)
  have b: "last [0..<max_retries] = max_retries - 1" by (simp add: max_retries_def range_3)
  from assms have "connect_loop E [0..<max_retries] w = (Inr u, w')"
    by (simp only: connect_def)
  from connect_loop_has_conn [OF this a b] show ?thesis .
qed

lemma ensure_connected_has_conn:
  assumes "ensure_connected E w = (Inr u, w')"
  shows "has_conn w'"
proof (cases "has_conn w")
  case False
  with assms show ?thesis by (simp add: ensure_connected_def connect_has_conn)
next
  case True
  obtain b w1 where p: "is_connected E w = (b, w1)" by force
  from has_conn_is_connected [OF p] True have h: "has_conn w1" by simp
  show ?thesis
  proof (cases b)
    case True
    with assms p h \<open>has_conn w\<close> show ?thesis by (simp add: ensure_connected_def)
  next
    case False
    with assms p \<open>has_conn w\<close> have "connect E w1 = (Inr u, w')"
      by (simp add: ensure_connected_def)
    then show ?thesis by (rule connect_has_conn)
  qed
qed

end
